theory Spec2Isabelle
  imports Complex_Main
begin

section \<open>JavaScript values\<close>

text \<open>
  The add-on plugins of \<^verbatim>\<open>packages/addons\<close> are JavaScript. The values they test
  with \<^verbatim>\<open>typeof\<close>, \<^verbatim>\<open>!x\<close> and \<^verbatim>\<open>===\<close> are modelled by a small universe of
  JavaScript values: the primitive values, arrays and plain objects. An object is the list
  of its own enumerable properties in insertion order. A number is a double: a finite one
  is given by its exact value, and negative zero, \<^verbatim>\<open>NaN\<close> and the two infinities stand
  apart. The model never adds or rounds numbers: where the code adds, the engine's addition
  is a parameter.
\<close>

datatype number = Finite rat | NegZero | NaN | PosInfinity | NegInfinity

datatype jsval =
    JUndefined
  | JNull
  | JBool bool
  | JNum number
  | JStr string
  | JArr "jsval list"
  | JObj "(string \<times> jsval) list"

datatype jstype = TUndefined | TObject | TBoolean | TNumber | TString

fun typeof :: "jsval \<Rightarrow> jstype" where
  "typeof JUndefined = TUndefined"
| "typeof JNull = TObject"
| "typeof (JBool b) = TBoolean"
| "typeof (JNum n) = TNumber"
| "typeof (JStr s) = TString"
| "typeof (JArr xs) = TObject"
| "typeof (JObj fs) = TObject"

text \<open>Truthiness, as \<^verbatim>\<open>if (x)\<close>, \<^verbatim>\<open>!x\<close>, \<^verbatim>\<open>x || y\<close> and \<^verbatim>\<open>x && y\<close> read it.\<close>

fun truthy :: "jsval \<Rightarrow> bool" where
  "truthy JUndefined = False"
| "truthy JNull = False"
| "truthy (JBool b) = b"
| "truthy (JNum n) = (case n of Finite q \<Rightarrow> q \<noteq> 0 | NegZero \<Rightarrow> False | NaN \<Rightarrow> False
                       | PosInfinity \<Rightarrow> True | NegInfinity \<Rightarrow> True)"
| "truthy (JStr s) = (s \<noteq> [])"
| "truthy (JArr xs) = True"
| "truthy (JObj fs) = True"

text \<open>
  \<^verbatim>\<open>Array.prototype.indexOf\<close>: the first index holding the element, \<open>-1\<close> when
  there is none. \<^verbatim>\<open>xs[i]\<close> is \<^verbatim>\<open>undefined\<close> (here \<open>None\<close>) out of range.
\<close>

fun indexOf :: "'a list \<Rightarrow> 'a \<Rightarrow> int" where
  "indexOf [] x = -1"
| "indexOf (y # ys) x =
     (if y = x then 0
      else (let i = indexOf ys x in if i < 0 then -1 else i + 1))"

definition itemAt :: "'a list \<Rightarrow> int \<Rightarrow> 'a option" where
  "itemAt xs i = (if 0 \<le> i \<and> i < int (length xs) then Some (xs ! nat i) else None)"

text \<open>
  The array index a number names when it is used as a property key: an integral number
  names itself, negative zero names 0, and any other number names no index.
\<close>

definition numberIndex :: "number \<Rightarrow> int option" where
  "numberIndex n =
     (case n of
        Finite q \<Rightarrow> (if of_int \<lfloor>q\<rfloor> = q then Some \<lfloor>q\<rfloor> else None)
      | NegZero \<Rightarrow> Some 0
      | NaN \<Rightarrow> None
      | PosInfinity \<Rightarrow> None
      | NegInfinity \<Rightarrow> None)"

section \<open>The multi-step container and its steps\<close>

text \<open>
  A step is the framework context object of a child of type \<^verbatim>\<open>step\<close>. The plugin
  compares steps by identity (\<^verbatim>\<open>currentStep === targetStep\<close>, \<^verbatim>\<open>steps.indexOf\<close>) and
  writes position properties into them, so a step is a reference into a store of step
  objects. The record holds the fields of the context and of its node that the plugin reads
  or writes.
\<close>

type_synonym ref = nat

datatype error = TypeError | GuardRejected jsval

text \<open>
  The argument object the plugin builds for a guard, at
  \<^verbatim>\<open>beforeStepChange({ currentStep, targetStep, delta: targetStepIndex - currentStepIndex })\<close>.
  The difference of two \<^verbatim>\<open>undefined\<close> indices is \<^verbatim>\<open>NaN\<close>, here \<open>None\<close>.
\<close>

record BeforeStepChangeData =
  currentStep :: ref
  targetStep :: ref
  delta :: "int option"

text \<open>
  A guard is a user function whose result is awaited: it resolves with a value or rejects
  (a guard that throws rejects the awaited promise as well). The transform hooks of the
  persistence plugin are awaited in the same way.
\<close>

datatype outcome = Resolved jsval | Rejected jsval

type_synonym guard = "BeforeStepChangeData \<Rightarrow> outcome"

record step =
  nodeName :: string                       \<comment> \<open>\<^verbatim>\<open>step.node.name\<close>\<close>
  nodeParent :: bool                       \<comment> \<open>\<^verbatim>\<open>step.node.parent\<close> is the container (or null)\<close>
  isPlaceholder :: bool                    \<comment> \<open>\<^verbatim>\<open>step.__isPlaceholder\<close>\<close>
  stateValid :: "bool option"              \<comment> \<open>\<^verbatim>\<open>step.state?.valid\<close>, \<open>None\<close> without a state\<close>
  stepBeforeStepChange :: "guard option"   \<comment> \<open>\<^verbatim>\<open>step.node.props.beforeStepChange\<close>\<close>
  stepDisabled :: bool                     \<comment> \<open>\<^verbatim>\<open>step.disabled\<close>\<close>
  isFirstStep :: bool
  isLastStep :: bool
  stepIndex :: "nat option"                \<comment> \<open>\<open>None\<close> until \<^verbatim>\<open>setNodePositionProps\<close> sets it\<close>
  stepSteps :: "ref list"                  \<comment> \<open>\<^verbatim>\<open>step.steps\<close>, the back-reference\<close>
  ordered :: bool
  isActiveStep :: bool
  errorCount :: int
  blockingCount :: int

text \<open>
  The container node of type \<^verbatim>\<open>multi-step\<close> with the props the plugin keeps on it, the
  store of step objects, the plugin's closure variable \<^verbatim>\<open>isFirstStep\<close>, and the part
  of the browser the plugin asks: whether there is a window, and where in document order
  the root element of a step lies (\<open>None\<close> when \<^verbatim>\<open>getElementById\<close> finds nothing).
  \<open>guardCalls\<close> records every invocation of a guard with its argument.
\<close>

record world =
  heap :: "ref \<Rightarrow> step"
  steps :: "ref list"                      \<comment> \<open>\<^verbatim>\<open>node.props.steps\<close>\<close>
  activeStep :: "string option"            \<comment> \<open>\<^verbatim>\<open>node.props.activeStep\<close>, \<open>None\<close> is undefined\<close>
  allowIncomplete :: bool                  \<comment> \<open>\<^verbatim>\<open>node.props.allowIncomplete\<close>\<close>
  beforeStepChange :: "guard option"       \<comment> \<open>\<^verbatim>\<open>node.props.beforeStepChange\<close>\<close>
  disabled :: bool                         \<comment> \<open>\<^verbatim>\<open>node.props.disabled\<close>\<close>
  loading :: bool                          \<comment> \<open>the \<^verbatim>\<open>loading\<close> message of the node's store\<close>
  hasContext :: bool                       \<comment> \<open>\<^verbatim>\<open>node.context\<close> is set\<close>
  isFirstStepVar :: bool                   \<comment> \<open>\<^verbatim>\<open>let isFirstStep\<close> of the plugin\<close>
  isBrowser :: bool
  elementPos :: "ref \<Rightarrow> nat option"
  guardCalls :: "(guard \<times> BeforeStepChangeData) list"

section \<open>Navigation: \<^verbatim>\<open>isTargetStepAllowed\<close>\<close>

text \<open>
  The loop \<^verbatim>\<open>for (let i = 0; i < delta; i++)\<close> over \<^verbatim>\<open>steps[currentStepIndex + i]\<close>.
  When \<^verbatim>\<open>allowIncomplete\<close> is truthy, \<^verbatim>\<open>||\<close> does not read the step; otherwise
  reading \<^verbatim>\<open>.state\<close> of a missing step throws a TypeError.
\<close>

function intermediateLoop :: "world \<Rightarrow> bool \<Rightarrow> int \<Rightarrow> int \<Rightarrow> int \<Rightarrow> error + bool" where
  "intermediateLoop w allowInc cidx d i =
     (if i < d then
        (if allowInc then intermediateLoop w allowInc cidx d (i + 1)
         else (case itemAt (steps w) (cidx + i) of
                 None \<Rightarrow> Inl TypeError
               | Some r \<Rightarrow>
                   (if stateValid (heap w r) = Some True
                    then intermediateLoop w allowInc cidx d (i + 1)
                    else Inr False)))
      else Inr True)"
  by pat_completeness auto
termination
  by (relation "measure (\<lambda>(w, allowInc, cidx, d, i). nat (d - i))") auto

declare intermediateLoop.simps [simp del]

text \<open>
  The code after the guard: a backward move returns true at once, any other move runs the
  loop. Without a parent node both indices are \<^verbatim>\<open>undefined\<close>: the comparison is
  false, \<^verbatim>\<open>delta\<close> is \<^verbatim>\<open>NaN\<close> and the loop body never runs.
\<close>

definition navigationRules :: "bool \<Rightarrow> int option \<Rightarrow> int option \<Rightarrow> world \<Rightarrow> error + bool" where
  "navigationRules allowInc cidx tidx w =
     (case cidx of
        None \<Rightarrow> Inr True
      | Some c \<Rightarrow>
          (case tidx of
             None \<Rightarrow> Inr True
           | Some t \<Rightarrow> (if t < c then Inr True else intermediateLoop w allowInc c (t - c) 0)))"

text \<open>The locals read from the parent node at the top of the function.\<close>

definition parentAllowIncomplete :: "ref \<Rightarrow> world \<Rightarrow> bool" where
  "parentAllowIncomplete cur w = (nodeParent (heap w cur) \<and> allowIncomplete w)"

definition parentIndexOf :: "ref \<Rightarrow> ref \<Rightarrow> world \<Rightarrow> int option" where
  "parentIndexOf cur s w = (if nodeParent (heap w cur) then Some (indexOf (steps w) s) else None)"

definition indexDelta :: "int option \<Rightarrow> int option \<Rightarrow> int option" where
  "indexDelta tidx cidx =
     (case tidx of None \<Rightarrow> None
      | Some t \<Rightarrow> (case cidx of None \<Rightarrow> None | Some c \<Rightarrow> Some (t - c)))"

text \<open>
  \<^verbatim>\<open>currentStep.node.props.beforeStepChange || currentStep.node.parent?.props.beforeStepChange\<close>:
  the guard of the current step's own node, else the container's.
\<close>

definition selectGuard :: "ref \<Rightarrow> world \<Rightarrow> guard option" where
  "selectGuard cur w =
     (case stepBeforeStepChange (heap w cur) of
        Some g \<Rightarrow> Some g
      | None \<Rightarrow> (if nodeParent (heap w cur) then beforeStepChange w else None))"

text \<open>The two blocks around the awaited call, both under \<^verbatim>\<open>if (parentNode)\<close>.\<close>

definition markPending :: "ref \<Rightarrow> world \<Rightarrow> world" where
  "markPending cur w =
     (if nodeParent (heap w cur)
      then w\<lparr>loading := True, disabled := True,
             heap := (heap w)(cur := (heap w cur)\<lparr>stepDisabled := True\<rparr>)\<rparr>
      else w)"

definition clearPending :: "ref \<Rightarrow> world \<Rightarrow> world" where
  "clearPending cur w =
     (if nodeParent (heap w cur)
      then w\<lparr>loading := False, disabled := False,
             heap := (heap w)(cur := (heap w cur)\<lparr>stepDisabled := False\<rparr>)\<rparr>
      else w)"

text \<open>
  \<^verbatim>\<open>isTargetStepAllowed\<close> is an async function with one \<^verbatim>\<open>await\<close>. Its run up to that
  point either finishes with a result, or is suspended on the guard it has just called, in
  the world it has prepared. The suspended run is resumed with the outcome of the guard.
\<close>

datatype suspended =
    Finished "error + bool" world
  | Awaiting guard BeforeStepChangeData world

definition isTargetStepAllowed_start :: "ref \<Rightarrow> ref \<Rightarrow> world \<Rightarrow> suspended" where
  "isTargetStepAllowed_start cur tgt w =
     (if cur = tgt then Finished (Inr True) w
      else
        (let allowInc = parentAllowIncomplete cur w;
             currentStepIndex = parentIndexOf cur cur w;
             targetStepIndex = parentIndexOf cur tgt w
         in (case selectGuard cur w of
               None \<Rightarrow> Finished (navigationRules allowInc currentStepIndex targetStepIndex w) w
             | Some g \<Rightarrow>
                 (let w1 = markPending cur w;
                      d = \<lparr>currentStep = cur, targetStep = tgt,
                           delta = indexDelta targetStepIndex currentStepIndex\<rparr>
                  in Awaiting g d (w1\<lparr>guardCalls := guardCalls w1 @ [(g, d)]\<rparr>)))))"

text \<open>
  The locals of the suspended run were computed before the call; the marking of the world
  changes neither the step list nor the policy, so they are read again here.
\<close>

definition isTargetStepAllowed_resume ::
    "ref \<Rightarrow> ref \<Rightarrow> outcome \<Rightarrow> world \<Rightarrow> (error + bool) \<times> world" where
  "isTargetStepAllowed_resume cur tgt outcome w1 =
     (case outcome of
        Rejected e \<Rightarrow> (Inl (GuardRejected e), w1)
      | Resolved result \<Rightarrow>
          (let w2 = clearPending cur w1
           in if typeof result = TBoolean \<and> \<not> truthy result then (Inr False, w2)
              else (navigationRules (parentAllowIncomplete cur w2)
                      (parentIndexOf cur cur w2) (parentIndexOf cur tgt w2) w2, w2)))"

definition isTargetStepAllowed :: "ref \<Rightarrow> ref \<Rightarrow> world \<Rightarrow> (error + bool) \<times> world" where
  "isTargetStepAllowed cur tgt w =
     (case isTargetStepAllowed_start cur tgt w of
        Finished r w' \<Rightarrow> (r, w')
      | Awaiting g d w1 \<Rightarrow> isTargetStepAllowed_resume cur tgt (g d) w1)"


section \<open>Navigation: \<^verbatim>\<open>setActiveStep\<close>, \<^verbatim>\<open>incrementStep\<close>, \<^verbatim>\<open>goTo\<close>\<close>

text \<open>
  These functions are async and return nothing: the model returns the error that rejects
  them, if any, and the world they leave. \<^verbatim>\<open>setActiveStep\<close> finds the current step by
  the name in \<^verbatim>\<open>activeStep\<close>; when no step bears it, \<^verbatim>\<open>isTargetStepAllowed\<close> is called
  with \<^verbatim>\<open>undefined\<close> and throws on \<^verbatim>\<open>currentStep.node\<close>. The handlers the framework
  runs when a prop changes (\<^verbatim>\<open>prop:activeStep\<close> and the like) are not part of the model.
\<close>

definition setActiveStep :: "ref option \<Rightarrow> world \<Rightarrow> error option \<times> world" where
  "setActiveStep target w =
     (case target of
        None \<Rightarrow> (None, w)
      | Some tgt \<Rightarrow>
          (if nodeName (heap w tgt) \<noteq> [] \<and> nodeParent (heap w tgt) then
             (case find (\<lambda>r. Some (nodeName (heap w r)) = activeStep w) (steps w) of
                None \<Rightarrow> (Some TypeError, w)
              | Some cur \<Rightarrow>
                  (case isTargetStepAllowed cur tgt w of
                     (Inl e, w') \<Rightarrow> (Some e, w')
                   | (Inr stepIsAllowed, w') \<Rightarrow>
                       (None,
                        if stepIsAllowed \<and> hasContext w'
                        then w'\<lparr>activeStep := Some (nodeName (heap w' tgt))\<rparr>
                        else w')))
           else (None, w)))"

definition incrementStep :: "int \<Rightarrow> ref option \<Rightarrow> world \<Rightarrow> error option \<times> world" where
  "incrementStep dlt current w =
     (case current of
        None \<Rightarrow> (None, w)
      | Some cur \<Rightarrow>
          (if nodeName (heap w cur) \<noteq> [] \<and> nodeParent (heap w cur) then
             (case stepIndex (heap w cur) of
                None \<Rightarrow> (None, w)
              | Some idx \<Rightarrow>
                  (case itemAt (steps w) (int idx + dlt) of
                     None \<Rightarrow> (None, w)
                   | Some tgt \<Rightarrow>
                       (case isTargetStepAllowed cur tgt w of
                          (Inl e, w') \<Rightarrow> (Some e, w')
                        | (Inr stepIsAllowed, w') \<Rightarrow>
                            (None,
                             if stepIsAllowed
                             then w'\<lparr>activeStep := Some (nodeName (heap w' tgt))\<rparr>
                             else w'))))
           else (None, w)))"

text \<open>\<^verbatim>\<open>node.goTo(target)\<close>: a number is an index, a string a step name, anything else is ignored.\<close>

definition goTo :: "jsval \<Rightarrow> world \<Rightarrow> error option \<times> world" where
  "goTo target w =
     (case target of
        JNum n \<Rightarrow>
          setActiveStep (case numberIndex n of None \<Rightarrow> None | Some i \<Rightarrow> itemAt (steps w) i) w
      | JStr nm \<Rightarrow> setActiveStep (find (\<lambda>r. nodeName (heap w r) = nm) (steps w)) w
      | _ \<Rightarrow> (None, w))"

section \<open>The step registry\<close>

text \<open>
  \<^verbatim>\<open>orderSteps\<close> sorts a copy of the list by the document position of the steps' root
  elements: the comparator answers 0 when an element is missing, 1 when the second
  element precedes the first, and -1 otherwise. It then marks every step of the result as
  ordered. Outside a browser it returns its argument. Where an element is missing the
  comparator is not an ordering, and the order \<^verbatim>\<open>Array.prototype.sort\<close> then gives is
  the engine's own. The model sorts by stable insertion, which agrees with the engine when
  every element is found; nothing below depends on the order beyond the result being a
  rearrangement of the argument.
\<close>

definition compareSteps :: "world \<Rightarrow> ref \<Rightarrow> ref \<Rightarrow> int" where
  "compareSteps w a b =
     (case elementPos w a of
        None \<Rightarrow> 0
      | Some pa \<Rightarrow>
          (case elementPos w b of
             None \<Rightarrow> 0
           | Some pb \<Rightarrow> (if pb < pa then 1 else -1)))"

fun insertBy :: "('a \<Rightarrow> 'a \<Rightarrow> int) \<Rightarrow> 'a \<Rightarrow> 'a list \<Rightarrow> 'a list" where
  "insertBy cmp x [] = [x]"
| "insertBy cmp x (y # ys) = (if cmp x y \<le> 0 then x # y # ys else y # insertBy cmp x ys)"

definition sortBy :: "('a \<Rightarrow> 'a \<Rightarrow> int) \<Rightarrow> 'a list \<Rightarrow> 'a list" where
  "sortBy cmp xs = foldr (insertBy cmp) xs []"

fun markOrdered :: "ref list \<Rightarrow> (ref \<Rightarrow> step) \<Rightarrow> (ref \<Rightarrow> step)" where
  "markOrdered [] h = h"
| "markOrdered (r # rs) h = markOrdered rs (h(r := (h r)\<lparr>ordered := True\<rparr>))"

definition orderSteps :: "ref list \<Rightarrow> world \<Rightarrow> ref list \<times> world" where
  "orderSteps ss w =
     (if \<not> isBrowser w then (ss, w)
      else (let orderedSteps = sortBy (compareSteps w) ss
            in (orderedSteps, w\<lparr>heap := markOrdered orderedSteps (heap w)\<rparr>)))"

text \<open>
  \<^verbatim>\<open>setNodePositionProps\<close>: \<^verbatim>\<open>steps.forEach((step, index) => ...)\<close>, writing into the
  step objects of the store in list order.
\<close>

fun setPositions :: "ref list \<Rightarrow> nat \<Rightarrow> ref list \<Rightarrow> (ref \<Rightarrow> step) \<Rightarrow> (ref \<Rightarrow> step)" where
  "setPositions all index [] h = h"
| "setPositions all index (r # rs) h =
     setPositions all (Suc index) rs
       (h(r := (h r)\<lparr>isFirstStep := (index = 0),
                      isLastStep := (int index = int (length all) - 1),
                      stepIndex := Some index,
                      stepSteps := all\<rparr>))"

definition setNodePositionProps :: "ref list \<Rightarrow> world \<Rightarrow> world" where
  "setNodePositionProps ss w = w\<lparr>heap := setPositions ss 0 ss (heap w)\<rparr>"

text \<open>
  The handler of the container's \<^verbatim>\<open>child\<close> event, for the context object \<open>c\<close> of the
  attached child. The display name \<^verbatim>\<open>stepName\<close> it also sets is not modelled.
\<close>

definition child :: "ref \<Rightarrow> world \<Rightarrow> world" where
  "child c w =
     (let s1 = (if steps w \<noteq> [] then filter (\<lambda>r. \<not> isPlaceholder (heap w r)) (steps w)
                else steps w);
          s2 = (if s1 \<noteq> [] then s1 @ [c] else [c]);
          (s3, w1) = orderSteps s2 w;
          w2 = setNodePositionProps s3 (w1\<lparr>steps := s3\<rparr>);
          w3 = w2\<lparr>heap := (heap w2)(c := (heap w2 c)\<lparr>errorCount := 0, blockingCount := 0,
                                                    isActiveStep := isFirstStepVar w2\<rparr>),
                  isFirstStepVar := False\<rparr>
      in w3\<lparr>activeStep :=
              (case activeStep w3 of
                 None \<Rightarrow> Some (case steps w3 of [] \<Rightarrow> [] | r # rs \<Rightarrow> nodeName (heap w3 r))
               | Some a \<Rightarrow>
                   (if a \<noteq> [] then Some a
                    else Some (case steps w3 of [] \<Rightarrow> [] | r # rs \<Rightarrow> nodeName (heap w3 r))))\<rparr>)"

text \<open>
  The callback of \<^verbatim>\<open>steps.filter\<close> in the \<^verbatim>\<open>childRemoved\<close> handler drops every step
  that bears the removed child's name and stores the index of each one it drops in
  \<^verbatim>\<open>removedStepIndex\<close>.
\<close>

fun filterRemoved :: "(ref \<Rightarrow> step) \<Rightarrow> string \<Rightarrow> ref list \<Rightarrow> nat \<Rightarrow> int \<Rightarrow> ref list \<times> int" where
  "filterRemoved h nm [] index removedStepIndex = ([], removedStepIndex)"
| "filterRemoved h nm (r # rs) index removedStepIndex =
     (if nodeName (h r) \<noteq> nm
      then (case filterRemoved h nm rs (Suc index) removedStepIndex of
              (kept, removed) \<Rightarrow> (r # kept, removed))
      else filterRemoved h nm rs (Suc index) (int index))"

definition childRemoved :: "ref \<Rightarrow> world \<Rightarrow> world" where
  "childRemoved c w =
     (let nm = nodeName (heap w c);
          w0 = w\<lparr>heap := (heap w)(c := (heap w c)\<lparr>ordered := False\<rparr>)\<rparr>;
          (ss, removedStepIndex) = filterRemoved (heap w0) nm (steps w0) 0 (-1);
          w1 = setNodePositionProps ss (w0\<lparr>steps := ss\<rparr>)
      in if activeStep w1 = Some nm then
           (let targetIndex = (if removedStepIndex > 0 then removedStepIndex - 1 else 0)
            in w1\<lparr>activeStep :=
                    Some (case itemAt (steps w1) targetIndex of
                            Some r \<Rightarrow> nodeName (heap w1 r)
                          | None \<Rightarrow> [])\<rparr>)
         else w1)"

section \<open>Creating the multi-step plugin\<close>

record MultiStepOptions =
  optAllowIncomplete :: jsval
  optHideProgressLabels :: jsval
  optTabStyle :: jsval

text \<open>\<^verbatim>\<open>options?.allowIncomplete\<close>: undefined when no options were passed.\<close>

definition optionsAllowIncomplete :: "MultiStepOptions option \<Rightarrow> jsval" where
  "optionsAllowIncomplete options =
     (case options of None \<Rightarrow> JUndefined | Some opts \<Rightarrow> optAllowIncomplete opts)"

definition initialAllowIncomplete :: "jsval \<Rightarrow> MultiStepOptions option \<Rightarrow> jsval" where
  "initialAllowIncomplete prop options =
     (if typeof prop = TBoolean then prop
      else if typeof (optionsAllowIncomplete options) = TBoolean
           then optionsAllowIncomplete options
           else JBool True)"

text \<open>
  The branch of the plugin for a node of type \<^verbatim>\<open>multi-step\<close>, as far as the policy and
  the closure variable go: without a context the plugin returns at once.
\<close>

definition multiStepPlugin :: "MultiStepOptions option \<Rightarrow> jsval \<Rightarrow> world \<Rightarrow> world" where
  "multiStepPlugin options propAllowIncomplete w =
     (if \<not> hasContext w then w
      else w\<lparr>isFirstStepVar := True,
             allowIncomplete := truthy (initialAllowIncomplete propAllowIncomplete options)\<rparr>)"

section \<open>The local-storage plugin\<close>

text \<open>
  \<^verbatim>\<open>localStorage\<close> holds strings. The plugin writes \<^verbatim>\<open>JSON.stringify({ maxAge, data })\<close>
  and reads with \<^verbatim>\<open>JSON.parse\<close>; a stored string is modelled by the JSON document it
  spells. \<^verbatim>\<open>JSON.stringify\<close> answers \<^verbatim>\<open>undefined\<close> (here \<open>None\<close>) for
  \<^verbatim>\<open>undefined\<close>, writes \<^verbatim>\<open>null\<close> for an undefined array element and leaves out a
  property whose value is undefined. A number that is not finite is written as
  \<^verbatim>\<open>null\<close>, negative zero as \<^verbatim>\<open>0\<close>.
\<close>

datatype json =
    JsonNull
  | JsonBool bool
  | JsonNum rat
  | JsonStr string
  | JsonArr "json list"
  | JsonObj "(string \<times> json) list"

definition numberToJson :: "number \<Rightarrow> json" where
  "numberToJson n =
     (case n of
        Finite q \<Rightarrow> JsonNum q
      | NegZero \<Rightarrow> JsonNum 0
      | NaN \<Rightarrow> JsonNull
      | PosInfinity \<Rightarrow> JsonNull
      | NegInfinity \<Rightarrow> JsonNull)"

primrec JSON_stringify :: "jsval \<Rightarrow> json option" where
  "JSON_stringify JUndefined = None"
| "JSON_stringify JNull = Some JsonNull"
| "JSON_stringify (JBool b) = Some (JsonBool b)"
| "JSON_stringify (JNum n) = Some (numberToJson n)"
| "JSON_stringify (JStr s) = Some (JsonStr s)"
| "JSON_stringify (JArr xs) =
     Some (JsonArr (map (\<lambda>r. case r of None \<Rightarrow> JsonNull | Some j \<Rightarrow> j)
                        (map JSON_stringify xs)))"
| "JSON_stringify (JObj fs) =
     Some (JsonObj (List.map_filter (\<lambda>kr. map_option (Pair (fst kr)) (snd kr))
                        (map (map_prod id JSON_stringify) fs)))"

primrec JSON_parse :: "json \<Rightarrow> jsval" where
  "JSON_parse JsonNull = JNull"
| "JSON_parse (JsonBool b) = JBool b"
| "JSON_parse (JsonNum n) = JNum (Finite n)"
| "JSON_parse (JsonStr s) = JStr s"
| "JSON_parse (JsonArr xs) = JArr (map JSON_parse xs)"
| "JSON_parse (JsonObj fs) = JObj (map (map_prod id JSON_parse) fs)"

text \<open>
  The stored entry \<^verbatim>\<open>{ maxAge: <expiry in epoch ms>, data: <form value> }\<close>. The
  \<^verbatim>\<open>maxAge\<close> property is what \<^verbatim>\<open>JSON.stringify\<close> writes for a number: a finite
  number, or \<^verbatim>\<open>null\<close> (here \<open>None\<close>). The \<^verbatim>\<open>data\<close> property is absent when the
  value written was undefined.
\<close>

record entry =
  entryMaxAge :: "rat option"
  entryData :: "json option"

definition expiryToJson :: "number \<Rightarrow> rat option" where
  "expiryToJson n = (case numberToJson n of JsonNum q \<Rightarrow> Some q | _ \<Rightarrow> None)"

text \<open>
  \<^verbatim>\<open>loadValue.maxAge > Date.now()\<close> on the parsed entry: \<^verbatim>\<open>null\<close> is compared as 0.
\<close>

definition maxAgeAfter :: "rat option \<Rightarrow> int \<Rightarrow> bool" where
  "maxAgeAfter m t = (case m of Some q \<Rightarrow> of_int t < q | None \<Rightarrow> t < 0)"

type_synonym hook = "jsval \<Rightarrow> outcome"

record LocalStorageOptions =
  optPrefix :: "string option"
  optKey :: "string option"
  optControl :: "string option"
  optMaxAge :: "number option"
  optDebounce :: "int option"
  beforeSave :: "hook option"
  beforeLoad :: "hook option"

text \<open>
  The form node the plugin is applied to, the browser's storage and clock, and the
  variables of the plugin's closure. \<open>nodeAt\<close> is \<^verbatim>\<open>node.at(address)\<close>: the value of the
  node at an address, \<open>None\<close> when there is no such node. \<open>saveTimeout\<close> is the one
  pending timer, with the time it is due and the payload its callback saves.
\<close>

record persist =
  storage :: "string \<rightharpoonup> entry"          \<comment> \<open>\<^verbatim>\<open>window.localStorage\<close>\<close>
  now :: int                                   \<comment> \<open>\<^verbatim>\<open>Date.now()\<close>\<close>
  formName :: string                           \<comment> \<open>\<^verbatim>\<open>node.name\<close>\<close>
  formValue :: jsval                           \<comment> \<open>the value \<^verbatim>\<open>node.input\<close> sets\<close>
  formDisabled :: bool                         \<comment> \<open>\<^verbatim>\<open>node.props.disabled\<close>\<close>
  propUseLocalStorage :: jsval                 \<comment> \<open>\<^verbatim>\<open>node.props.useLocalStorage\<close>\<close>
  nodeAt :: "string \<rightharpoonup> jsval"
  useLocalStorage :: bool                      \<comment> \<open>\<^verbatim>\<open>let useLocalStorage\<close>, as \<^verbatim>\<open>if\<close> reads it\<close>
  saveTimeout :: "(int \<times> jsval) option"
  cachedLocalStorageData :: "entry option"
  consoleErrors :: "jsval list"                \<comment> \<open>what \<^verbatim>\<open>console.error\<close> was given\<close>
  inputRefused :: "jsval list"                 \<comment> \<open>the values \<^verbatim>\<open>node.input\<close> threw on\<close>

definition debounceOf :: "LocalStorageOptions option \<Rightarrow> int" where
  "debounceOf options =
     (case options of
        None \<Rightarrow> 200
      | Some opts \<Rightarrow> (case optDebounce opts of None \<Rightarrow> 200 | Some d \<Rightarrow> d))"

definition maxAgeOf :: "LocalStorageOptions option \<Rightarrow> number" where
  "maxAgeOf options =
     (case options of
        None \<Rightarrow> Finite 3600000
      | Some opts \<Rightarrow> (case optMaxAge opts of None \<Rightarrow> Finite 3600000 | Some m \<Rightarrow> m))"

text \<open>
  \<^verbatim>\<open>`${prefix}${key}-${node.name}`\<close> with prefix \<^verbatim>\<open>formkit\<close> by default and the key,
  when it is truthy, behind a dash. A key is modelled as a string.
\<close>

definition storageKey :: "LocalStorageOptions option \<Rightarrow> persist \<Rightarrow> string" where
  "storageKey options s =
     (let prefix = (case options of
                      None \<Rightarrow> ''formkit''
                    | Some opts \<Rightarrow> (case optPrefix opts of None \<Rightarrow> ''formkit'' | Some p \<Rightarrow> p));
          key = (case options of
                   None \<Rightarrow> []
                 | Some opts \<Rightarrow>
                     (case optKey opts of
                        None \<Rightarrow> []
                      | Some k \<Rightarrow> (if k \<noteq> [] then ''-'' @ k else [])))
      in prefix @ key @ ''-'' @ formName s)"

definition beforeSaveOf :: "LocalStorageOptions option \<Rightarrow> hook option" where
  "beforeSaveOf options = (case options of None \<Rightarrow> None | Some opts \<Rightarrow> beforeSave opts)"

definition beforeLoadOf :: "LocalStorageOptions option \<Rightarrow> hook option" where
  "beforeLoadOf options = (case options of None \<Rightarrow> None | Some opts \<Rightarrow> beforeLoad opts)"

definition controlOf :: "LocalStorageOptions option \<Rightarrow> string option" where
  "controlOf options = (case options of None \<Rightarrow> None | Some opts \<Rightarrow> optControl opts)"

text \<open>
  \<^verbatim>\<open>shouldUseLocalStorage(controlNode)\<close>. \<^verbatim>\<open>utils.undefine\<close> belongs to another package
  and is a parameter here: \<open>undefine v\<close> says whether its answer for \<open>v\<close> is truthy.
  The argument is the value of the control node, \<open>None\<close> when the function is called
  with \<^verbatim>\<open>undefined\<close>.
\<close>

definition shouldUseLocalStorage :: "(jsval \<Rightarrow> bool) \<Rightarrow> persist \<Rightarrow> jsval option \<Rightarrow> bool" where
  "shouldUseLocalStorage undefine s controlNode =
     (let controlFieldValue = (case controlNode of None \<Rightarrow> True | Some v \<Rightarrow> v = JBool True)
      in undefine (propUseLocalStorage s) \<and> controlFieldValue)"

text \<open>
  The handler of the form's \<^verbatim>\<open>commit\<close> event: when the closure variable is off it
  returns, otherwise it replaces the pending timer by one for this payload. The timer's
  callback, run by the browser once the timer is due, calls \<^verbatim>\<open>saveValue\<close>.
\<close>

definition commit :: "LocalStorageOptions option \<Rightarrow> jsval \<Rightarrow> persist \<Rightarrow> persist" where
  "commit options payload s =
     (if \<not> useLocalStorage s then s
      else s\<lparr>saveTimeout := Some (now s + debounceOf options, payload)\<rparr>)"

text \<open>
  \<^verbatim>\<open>node.input(value, false)\<close> on the form node, a node of type \<^verbatim>\<open>group\<close>. The
  framework takes a plain object as the value of a group and throws on anything else; it
  sets the value and commits it at once, and the commit runs the plugin's own
  \<^verbatim>\<open>commit\<close> handler with that value. What else the framework does with the new value
  is outside the model.
\<close>

definition nodeInput :: "LocalStorageOptions option \<Rightarrow> jsval \<Rightarrow> persist \<Rightarrow> persist" where
  "nodeInput options v s =
     (case v of
        JObj fs \<Rightarrow> commit options v (s\<lparr>formValue := v\<rparr>)
      | _ \<Rightarrow> s\<lparr>inputRefused := inputRefused s @ [v]\<rparr>)"

text \<open>
  \<^verbatim>\<open>loadValue(forceValue)\<close>: the entry is \<^verbatim>\<open>forceValue || localStorage.getItem(storageKey)\<close>.
  A failing \<^verbatim>\<open>beforeLoad\<close> hook is logged and the data stay as parsed.
\<close>

definition loadValue :: "LocalStorageOptions option \<Rightarrow> entry option \<Rightarrow> persist \<Rightarrow> persist" where
  "loadValue options forceValue s =
     (case (case forceValue of Some e \<Rightarrow> Some e | None \<Rightarrow> storage s (storageKey options s)) of
        None \<Rightarrow> s
      | Some e \<Rightarrow>
          (let parsed = (case entryData e of None \<Rightarrow> JUndefined | Some j \<Rightarrow> JSON_parse j);
               (loaded, s1) =
                 (case beforeLoadOf options of
                    None \<Rightarrow> (parsed, s)
                  | Some h \<Rightarrow>
                      (case h parsed of
                         Resolved v \<Rightarrow> (v, s\<lparr>formDisabled := False\<rparr>)
                       | Rejected err \<Rightarrow>
                           (parsed, s\<lparr>formDisabled := False,
                                      consoleErrors := consoleErrors s @ [err]\<rparr>)))
           in if typeof loaded \<noteq> TObject then s1
              else if maxAgeAfter (entryMaxAge e) (now s1) then nodeInput options loaded s1
              else s1\<lparr>storage := (storage s1)(storageKey options s1 := None)\<rparr>))"

text \<open>
  \<^verbatim>\<open>saveValue(payload)\<close>: a failing \<^verbatim>\<open>beforeSave\<close> hook is logged and the payload is
  saved as it came; a falsy payload is not saved. The expiry is the floating-point sum
  \<^verbatim>\<open>Date.now() + maxAge\<close>; \<open>add\<close> is the engine's addition of the clock's integer
  and a number.
\<close>

definition saveValue ::
    "(int \<Rightarrow> number \<Rightarrow> number) \<Rightarrow> LocalStorageOptions option \<Rightarrow> jsval \<Rightarrow> persist \<Rightarrow> persist" where
  "saveValue add options payload s =
     (let (savePayload, s1) =
            (case beforeSaveOf options of
               None \<Rightarrow> (payload, s)
             | Some h \<Rightarrow>
                 (case h payload of
                    Resolved v \<Rightarrow> (v, s)
                  | Rejected err \<Rightarrow> (payload, s\<lparr>consoleErrors := consoleErrors s @ [err]\<rparr>)))
      in if \<not> truthy savePayload then s1
         else s1\<lparr>storage := (storage s1)(storageKey options s1 \<mapsto>
                   \<lparr>entryMaxAge = expiryToJson (add (now s1) (maxAgeOf options)),
                    entryData = JSON_stringify savePayload\<rparr>)\<rparr>)"

definition timerFires ::
    "(int \<Rightarrow> number \<Rightarrow> number) \<Rightarrow> LocalStorageOptions option \<Rightarrow> persist \<Rightarrow> persist" where
  "timerFires add options s =
     (case saveTimeout s of
        None \<Rightarrow> s
      | Some (due, payload) \<Rightarrow>
          (if due \<le> now s then saveValue add options payload (s\<lparr>saveTimeout := None\<rparr>)
           else s))"

text \<open>
  The handler of the control node's \<^verbatim>\<open>commit\<close> event, for the value the node has
  committed. It is registered when \<^verbatim>\<open>control\<close> is a string and \<^verbatim>\<open>node.at(control)\<close>
  finds a node, and it is the one place that passes the control node to
  \<^verbatim>\<open>shouldUseLocalStorage\<close>.
\<close>

definition controlCommit ::
    "(jsval \<Rightarrow> bool) \<Rightarrow> LocalStorageOptions option \<Rightarrow> jsval \<Rightarrow> persist \<Rightarrow> persist" where
  "controlCommit undefine options v s =
     (case controlOf options of
        None \<Rightarrow> s
      | Some address \<Rightarrow>
          (case nodeAt s address of
             None \<Rightarrow> s
           | Some old \<Rightarrow>
               (let s1 = s\<lparr>nodeAt := (nodeAt s)(address \<mapsto> v)\<rparr>;
                    use = shouldUseLocalStorage undefine s1 (Some v)
                in if \<not> use
                   then s1\<lparr>useLocalStorage := use,
                           storage := (storage s1)(storageKey options s1 := None)\<rparr>
                   else s1\<lparr>useLocalStorage := use\<rparr>)))"

text \<open>
  The handler of \<^verbatim>\<open>prop:useLocalStorage\<close>, for the new value of the prop. It passes the
  variable \<^verbatim>\<open>controlNode\<close> of the enclosing function, which is declared by
  \<^verbatim>\<open>let controlNode\<close> and never assigned: the \<^verbatim>\<open>const controlNode\<close> inside the
  \<^verbatim>\<open>if\<close> block is another variable. So the argument is \<^verbatim>\<open>undefined\<close>.
\<close>

definition propUseLocalStorageChanged ::
    "(jsval \<Rightarrow> bool) \<Rightarrow> LocalStorageOptions option \<Rightarrow> jsval \<Rightarrow> persist \<Rightarrow> persist" where
  "propUseLocalStorageChanged undefine options v s =
     (let s1 = s\<lparr>propUseLocalStorage := v\<rparr>;
          use = shouldUseLocalStorage undefine s1 None
      in if \<not> use
         then s1\<lparr>useLocalStorage := use,
                 storage := (storage s1)(storageKey options s1 := None)\<rparr>
         else s1\<lparr>useLocalStorage := use\<rparr>)"

text \<open>The submit hook caches the stored entry and removes it.\<close>

definition submit :: "LocalStorageOptions option \<Rightarrow> persist \<Rightarrow> persist" where
  "submit options s =
     s\<lparr>cachedLocalStorageData := storage s (storageKey options s),
       storage := (storage s)(storageKey options s := None)\<rparr>"

definition restoreCache :: "LocalStorageOptions option \<Rightarrow> persist \<Rightarrow> persist" where
  "restoreCache options s =
     (case cachedLocalStorageData s of
        None \<Rightarrow> s
      | Some e \<Rightarrow> loadValue options (Some e) s)"

text \<open>
  The handler of the form's \<^verbatim>\<open>created\<close> event, once the node has settled: it sets the
  closure variable from \<^verbatim>\<open>shouldUseLocalStorage(controlNode)\<close>, again with the variable
  that is never assigned, starts without a timer and loads the stored value.
\<close>

definition created :: "(jsval \<Rightarrow> bool) \<Rightarrow> LocalStorageOptions option \<Rightarrow> persist \<Rightarrow> persist" where
  "created undefine options s =
     loadValue options None
       (s\<lparr>useLocalStorage := shouldUseLocalStorage undefine s None, saveTimeout := None\<rparr>)"

section \<open>Example containers and forms\<close>

text \<open>
  A step attached to the container, with a name, a validity and a guard of its own, and a
  container over a store of such steps. The examples below are the inputs at which the
  theorems are evaluated.
\<close>

definition exampleStep :: "string \<Rightarrow> bool \<Rightarrow> guard option \<Rightarrow> step" where
  "exampleStep nm v g =
     \<lparr>nodeName = nm, nodeParent = True, isPlaceholder = False, stateValid = Some v,
      stepBeforeStepChange = g, stepDisabled = False, isFirstStep = False,
      isLastStep = False, stepIndex = None, stepSteps = [], ordered = False,
      isActiveStep = False, errorCount = 0, blockingCount = 0\<rparr>"

definition exampleWorld ::
    "(ref \<Rightarrow> step) \<Rightarrow> ref list \<Rightarrow> string \<Rightarrow> bool \<Rightarrow> guard option \<Rightarrow> world" where
  "exampleWorld h ss active allow g =
     \<lparr>heap = h, steps = ss, activeStep = Some active, allowIncomplete = allow,
      beforeStepChange = g, disabled = False, loading = False, hasContext = True,
      isFirstStepVar = False, isBrowser = False, elementPos = (\<lambda>r. None),
      guardCalls = []\<rparr>"

text \<open>Steps \<open>A\<close>, \<open>B\<close>, \<open>C\<close> at references 0, 1, 2 with the given validities.\<close>

definition stepsABC :: "bool \<Rightarrow> bool \<Rightarrow> bool \<Rightarrow> ref \<Rightarrow> step" where
  "stepsABC a b c =
     (\<lambda>r. (exampleStep [] False None)\<lparr>nodeParent := False\<rparr>)
       (0 := exampleStep ''A'' a None, 1 := exampleStep ''B'' b None,
        2 := exampleStep ''C'' c None)"

text \<open>Guards: one that answers false, one that answers nothing, one that throws.\<close>

definition guardFalse :: guard where
  "guardFalse d = Resolved (JBool False)"

definition guardUndefined :: guard where
  "guardUndefined d = Resolved JUndefined"

definition guardThrows :: guard where
  "guardThrows d = Rejected (JStr ''guard failed'')"

text \<open>
  The container of the specification's example: steps \<open>A\<close>, \<open>B\<close>, \<open>C\<close>, only \<open>B\<close>
  invalid, incomplete steps not allowed, \<open>A\<close> active, no guard.
\<close>

definition exampleABC :: world where
  "exampleABC = exampleWorld (stepsABC True False True) [0, 1, 2] ''A'' False None"

text \<open>Steps \<open>A\<close> and \<open>B\<close> with \<open>A\<close>, the active step, invalid.\<close>

definition exampleInvalidA :: world where
  "exampleInvalidA = exampleWorld (stepsABC False True True) [0, 1] ''A'' False None"

text \<open>All steps valid; the container's guard answers false, answers nothing, or throws.\<close>

definition exampleGuarded :: "guard \<Rightarrow> world" where
  "exampleGuarded g = exampleWorld (stepsABC True True True) [0, 1, 2] ''C'' True (Some g)"

text \<open>All steps valid; the only guard is on step \<open>B\<close>'s own node.\<close>

definition exampleGuardOnB :: world where
  "exampleGuardOnB =
     exampleWorld ((stepsABC True True True)(1 := exampleStep ''B'' True (Some guardFalse)))
       [0, 1, 2] ''A'' True None"

text \<open>Four steps named \<open>A\<close>, \<open>B\<close>, \<open>A\<close>, \<open>C\<close>, all valid, the name \<open>A\<close> active.\<close>

definition exampleDuplicateNames :: world where
  "exampleDuplicateNames =
     exampleWorld ((stepsABC True True True)
                     (2 := exampleStep ''A'' True None, 3 := exampleStep ''C'' True None))
       [0, 1, 2, 3] ''A'' True None"

text \<open>
  A form named \<open>contact\<close> with empty storage at time 1000, persistence switched on by its
  prop; the same form with a control field \<open>remember\<close> whose value is \<open>false\<close>; and the
  options that name that control field.
\<close>

definition exampleForm :: persist where
  "exampleForm =
     \<lparr>storage = Map.empty, now = 1000, formName = ''contact'', formValue = JObj [],
      formDisabled = False, propUseLocalStorage = JBool True, nodeAt = Map.empty,
      useLocalStorage = False, saveTimeout = None, cachedLocalStorageData = None,
      consoleErrors = [], inputRefused = []\<rparr>"

definition exampleControlledForm :: persist where
  "exampleControlledForm = exampleForm\<lparr>nodeAt := [''remember'' \<mapsto> JBool False]\<rparr>"

definition exampleControlOptions :: LocalStorageOptions where
  "exampleControlOptions =
     \<lparr>optPrefix = None, optKey = None, optControl = Some ''remember'', optMaxAge = None,
      optDebounce = None, beforeSave = None, beforeLoad = None\<rparr>"

text \<open>
  The same options with a maximal age of \<^verbatim>\<open>Infinity\<close> and no control field.
\<close>

definition exampleForeverOptions :: LocalStorageOptions where
  "exampleForeverOptions =
     \<lparr>optPrefix = None, optKey = None, optControl = None, optMaxAge = Some PosInfinity,
      optDebounce = None, beforeSave = None, beforeLoad = None\<rparr>"

text \<open>
  An addition for the examples. It is exact on finite numbers, as the engine's is on the
  integers of the examples, and a sum with \<^verbatim>\<open>NaN\<close> or an infinity is that number.
\<close>

definition examplePlus :: "int \<Rightarrow> number \<Rightarrow> number" where
  "examplePlus t m =
     (case m of
        Finite q \<Rightarrow> Finite (of_int t + q)
      | NegZero \<Rightarrow> Finite (of_int t)
      | NaN \<Rightarrow> NaN
      | PosInfinity \<Rightarrow> PosInfinity
      | NegInfinity \<Rightarrow> NegInfinity)"

text \<open>
  Plain data: the values built from \<^verbatim>\<open>null\<close>, booleans, finite numbers other than
  negative zero, strings, arrays and plain objects.
\<close>

primrec plainData :: "jsval \<Rightarrow> bool" where
  "plainData JUndefined = False"
| "plainData JNull = True"
| "plainData (JBool b) = True"
| "plainData (JNum n) = (case n of Finite q \<Rightarrow> True | _ \<Rightarrow> False)"
| "plainData (JStr s) = True"
| "plainData (JArr xs) = list_all id (map plainData xs)"
| "plainData (JObj fs) = list_all snd (map (map_prod id plainData) fs)"

section \<open>Facts about the list primitives\<close>

lemma indexOf_notin: "x \<notin> set xs \<Longrightarrow> indexOf xs x = -1"
  by (induction xs) (auto simp: Let_def)

lemma indexOf_in:
  "x \<in> set xs \<Longrightarrow>
   0 \<le> indexOf xs x \<and> indexOf xs x < int (length xs) \<and> xs ! nat (indexOf xs x) = x"
  by (induction xs) (auto simp: Let_def nat_add_distrib)

lemma indexOf_lt_length: "indexOf xs x < int (length xs)"
  by (induction xs) (auto simp: Let_def)

section \<open>The navigation rules\<close>

text \<open>
  The loop answers true exactly when incomplete steps are allowed or every step it visits
  is valid, as long as the indices it visits lie in the list.
\<close>

lemma intermediateLoop_result:
  "0 \<le> c + i \<Longrightarrow> c + d \<le> int (length (steps w)) \<Longrightarrow>
   intermediateLoop w a c d i =
     Inr (a \<or> (\<forall>k. i \<le> k \<and> k < d \<longrightarrow> stateValid (heap w (steps w ! nat (c + k))) = Some True))"
proof (induction w a c d i rule: intermediateLoop.induct)
  case (1 w a cidx d i)
  let ?V = "\<lambda>k. stateValid (heap w (steps w ! nat (cidx + k))) = Some True"
  show ?case
  proof (cases "i < d")
    case False
    then show ?thesis by (subst intermediateLoop.simps) auto
  next
    case True
    have found: "itemAt (steps w) (cidx + i) = Some (steps w ! nat (cidx + i))"
      using True 1(3,4) by (simp add: itemAt_def)
    have shift: "(\<forall>k. i + 1 \<le> k \<and> k < d \<longrightarrow> ?V k) = (\<forall>k. i \<le> k \<and> k < d \<longrightarrow> ?V k)"
      if vi: "?V i"
    proof
      assume h: "\<forall>k. i + 1 \<le> k \<and> k < d \<longrightarrow> ?V k"
      show "\<forall>k. i \<le> k \<and> k < d \<longrightarrow> ?V k"
      proof (intro allI impI)
        fix k assume "i \<le> k \<and> k < d"
        then consider "k = i" | "i + 1 \<le> k \<and> k < d" by linarith
        then show "?V k" using vi h by cases auto
      qed
    next
      assume h: "\<forall>k. i \<le> k \<and> k < d \<longrightarrow> ?V k"
      show "\<forall>k. i + 1 \<le> k \<and> k < d \<longrightarrow> ?V k" using h by auto
    qed
    show ?thesis
    proof (cases a)
      case al: True
      have "intermediateLoop w a cidx d i = intermediateLoop w a cidx d (i + 1)"
        using True al by (subst intermediateLoop.simps) simp
      also have "\<dots> = Inr (a \<or> (\<forall>k. i + 1 \<le> k \<and> k < d \<longrightarrow> ?V k))"
        using 1(1)[OF True al] 1(3,4) True by simp
      finally show ?thesis using al by simp
    next
      case nal: False
      show ?thesis
      proof (cases "?V i")
        case v: True
        have "intermediateLoop w a cidx d i = intermediateLoop w a cidx d (i + 1)"
          using True found v nal by (subst intermediateLoop.simps) simp
        also have "\<dots> = Inr (a \<or> (\<forall>k. i + 1 \<le> k \<and> k < d \<longrightarrow> ?V k))"
          using 1(2)[OF True nal found v] 1(3,4) True by simp
        finally show ?thesis using shift[OF v] by simp
      next
        case nv: False
        have "intermediateLoop w a cidx d i = Inr False"
          using True found nv nal by (subst intermediateLoop.simps) simp
        moreover have "\<not> (\<forall>k. i \<le> k \<and> k < d \<longrightarrow> ?V k)"
          using nv True by auto
        ultimately show ?thesis using nal by simp
      qed
    qed
  qed
qed

text \<open>The loop reads the step list and the validity of the steps, nothing else.\<close>

lemma intermediateLoop_frame:
  "steps w' = steps w \<Longrightarrow> (\<And>r. stateValid (heap w' r) = stateValid (heap w r)) \<Longrightarrow>
   intermediateLoop w' a c d i = intermediateLoop w a c d i"
proof (induction w a c d i rule: intermediateLoop.induct)
  case (1 w a cidx d i)
  have st: "steps w' = steps w" by (rule 1(3))
  have sv: "\<And>r. stateValid (heap w' r) = stateValid (heap w r)" by (rule 1(4))
  have A: "intermediateLoop w' a cidx d (i + 1) = intermediateLoop w a cidx d (i + 1)"
    if "i < d" "a"
    using 1(1)[OF that st sv] .
  have B: "intermediateLoop w' a cidx d (i + 1) = intermediateLoop w a cidx d (i + 1)"
    if "i < d" "\<not> a" "itemAt (steps w) (cidx + i) = Some r" "stateValid (heap w r) = Some True" for r
    using 1(2)[OF that st sv] .
  have L: "intermediateLoop w' a cidx d i =
     (if i < d then
        (if a then intermediateLoop w' a cidx d (i + 1)
         else (case itemAt (steps w) (cidx + i) of
                 None \<Rightarrow> Inl TypeError
               | Some r \<Rightarrow>
                   (if stateValid (heap w r) = Some True
                    then intermediateLoop w' a cidx d (i + 1)
                    else Inr False)))
      else Inr True)"
    by (subst intermediateLoop.simps) (simp only: st sv)
  have R: "intermediateLoop w a cidx d i =
     (if i < d then
        (if a then intermediateLoop w a cidx d (i + 1)
         else (case itemAt (steps w) (cidx + i) of
                 None \<Rightarrow> Inl TypeError
               | Some r \<Rightarrow>
                   (if stateValid (heap w r) = Some True
                    then intermediateLoop w a cidx d (i + 1)
                    else Inr False)))
      else Inr True)"
    by (rule intermediateLoop.simps)
  show ?case
    unfolding L R using A B by (auto split: option.splits)
qed

lemma navigationRules_frame:
  "steps w' = steps w \<Longrightarrow> (\<And>r. stateValid (heap w' r) = stateValid (heap w r)) \<Longrightarrow>
   navigationRules a c t w' = navigationRules a c t w"
  using intermediateLoop_frame[of w' w]
  by (simp add: navigationRules_def split: option.splits)

lemma navigationRules_forward:
  assumes "0 \<le> c" "c \<le> t" "t \<le> int (length (steps w))"
  shows "navigationRules a (Some c) (Some t) w =
           Inr (a \<or> (\<forall>i. c \<le> i \<and> i < t \<longrightarrow> stateValid (heap w (steps w ! nat i)) = Some True))"
proof -
  have "intermediateLoop w a c (t - c) 0 =
      Inr (a \<or> (\<forall>k. 0 \<le> k \<and> k < t - c \<longrightarrow> stateValid (heap w (steps w ! nat (c + k))) = Some True))"
    using assms by (intro intermediateLoop_result) auto
  moreover have "(\<forall>k. 0 \<le> k \<and> k < t - c \<longrightarrow> stateValid (heap w (steps w ! nat (c + k))) = Some True)
      = (\<forall>i. c \<le> i \<and> i < t \<longrightarrow> stateValid (heap w (steps w ! nat i)) = Some True)"
    (is "?L = ?R")
  proof
    assume l: ?L
    show ?R
    proof (intro allI impI)
      fix i assume "c \<le> i \<and> i < t"
      then have "0 \<le> i - c \<and> i - c < t - c" by simp
      with l have "stateValid (heap w (steps w ! nat (c + (i - c)))) = Some True" by blast
      then show "stateValid (heap w (steps w ! nat i)) = Some True" by simp
    qed
  next
    assume r: ?R
    show ?L
    proof (intro allI impI)
      fix k assume "0 \<le> k \<and> k < t - c"
      then have "c \<le> c + k \<and> c + k < t" by simp
      with r show "stateValid (heap w (steps w ! nat (c + k))) = Some True" by blast
    qed
  qed
  ultimately show ?thesis using assms by (simp add: navigationRules_def)
qed

section \<open>The result of \<^verbatim>\<open>isTargetStepAllowed\<close>\<close>

lemma boolean_false: "(typeof v = TBoolean \<and> \<not> truthy v) = (v = JBool False)"
  by (cases v) auto

lemma parent_locals:
  "nodeParent (heap w cur) \<Longrightarrow> parentAllowIncomplete cur w = allowIncomplete w"
  "nodeParent (heap w cur) \<Longrightarrow> parentIndexOf cur x w = Some (indexOf (steps w) x)"
  by (simp_all add: parentAllowIncomplete_def parentIndexOf_def)

text \<open>
  For two distinct steps the result is that of the guard, when one is selected and it
  answers false or rejects, and that of the navigation rules in the world before the call
  otherwise.
\<close>

lemma isTargetStepAllowed_result:
  assumes "cur \<noteq> tgt"
  shows "fst (isTargetStepAllowed cur tgt w) =
     (case selectGuard cur w of
        None \<Rightarrow> navigationRules (parentAllowIncomplete cur w) (parentIndexOf cur cur w)
                  (parentIndexOf cur tgt w) w
      | Some g \<Rightarrow>
          (case g \<lparr>currentStep = cur, targetStep = tgt,
                   delta = indexDelta (parentIndexOf cur tgt w) (parentIndexOf cur cur w)\<rparr> of
             Rejected e \<Rightarrow> Inl (GuardRejected e)
           | Resolved v \<Rightarrow>
               (if v = JBool False then Inr False
                else navigationRules (parentAllowIncomplete cur w) (parentIndexOf cur cur w)
                       (parentIndexOf cur tgt w) w)))"
proof (cases "selectGuard cur w")
  case None
  then show ?thesis using assms
    by (simp add: isTargetStepAllowed_def isTargetStepAllowed_start_def)
next
  case (Some g)
  let ?d = "\<lparr>currentStep = cur, targetStep = tgt,
              delta = indexDelta (parentIndexOf cur tgt w) (parentIndexOf cur cur w)\<rparr>"
  let ?w1 = "(markPending cur w)\<lparr>guardCalls := guardCalls (markPending cur w) @ [(g, ?d)]\<rparr>"
  have st: "isTargetStepAllowed_start cur tgt w = Awaiting g ?d ?w1"
    using assms Some by (simp add: isTargetStepAllowed_start_def Let_def)
  have fr: "navigationRules a c t (clearPending cur ?w1) = navigationRules a c t w" for a c t
    by (rule navigationRules_frame) (auto simp: clearPending_def markPending_def)
  have pa: "parentAllowIncomplete cur (clearPending cur ?w1) = parentAllowIncomplete cur w"
    by (auto simp: parentAllowIncomplete_def clearPending_def markPending_def)
  have pi: "parentIndexOf cur x (clearPending cur ?w1) = parentIndexOf cur x w" for x
    by (auto simp: parentIndexOf_def clearPending_def markPending_def)
  show ?thesis
    unfolding isTargetStepAllowed_def st
    by (simp add: Some isTargetStepAllowed_resume_def Let_def boolean_false fr pa pi
             split: outcome.splits)
qed

text \<open>
  A forward move from a step of the list, with no guard in the way, is decided by the loop
  over the steps from the current one up to the one before the target.
\<close>

lemma forward_move_result:
  assumes par: "nodeParent (heap w cur)"
      and mem: "cur \<in> set (steps w)"
      and fwd: "indexOf (steps w) cur < indexOf (steps w) tgt"
      and grd: "selectGuard cur w = None \<or>
                (\<exists>g v. selectGuard cur w = Some g \<and> v \<noteq> JBool False \<and>
                   g \<lparr>currentStep = cur, targetStep = tgt,
                      delta = Some (indexOf (steps w) tgt - indexOf (steps w) cur)\<rparr> = Resolved v)"
  shows "fst (isTargetStepAllowed cur tgt w) =
           Inr (allowIncomplete w \<or>
                (\<forall>i. indexOf (steps w) cur \<le> i \<and> i < indexOf (steps w) tgt \<longrightarrow>
                     stateValid (heap w (steps w ! nat i)) = Some True))"
proof -
  have ne: "cur \<noteq> tgt" using fwd by auto
  have c0: "0 \<le> indexOf (steps w) cur" using indexOf_in[OF mem] by simp
  have tl: "indexOf (steps w) tgt \<le> int (length (steps w))"
    using indexOf_lt_length[of "steps w" tgt] by simp
  have nav: "navigationRules (allowIncomplete w) (Some (indexOf (steps w) cur))
               (Some (indexOf (steps w) tgt)) w =
             Inr (allowIncomplete w \<or>
                  (\<forall>i. indexOf (steps w) cur \<le> i \<and> i < indexOf (steps w) tgt \<longrightarrow>
                       stateValid (heap w (steps w ! nat i)) = Some True))"
    using c0 fwd tl by (intro navigationRules_forward) auto
  have "fst (isTargetStepAllowed cur tgt w) =
          navigationRules (allowIncomplete w) (Some (indexOf (steps w) cur))
               (Some (indexOf (steps w) tgt)) w"
    using grd
    by (auto simp: isTargetStepAllowed_result[OF ne] parent_locals[OF par] indexDelta_def)
  then show ?thesis unfolding nav .
qed

section \<open>Forward and backward navigation\<close>

text \<open>
  Claim C1, as the code has it. For a forward move (the target's index is greater than the
  current step's) from a step of the container's list, with no guard selected or a guard
  that resolves with anything but \<open>false\<close>, the permission check vetoes the move if and
  only if incomplete steps are not allowed and some step from the current step up to the
  step before the target is not valid. The current step itself is among the steps checked;
  the target is not.
\<close>

theorem forward_move_vetoed_iff:
  assumes par: "nodeParent (heap w cur)"
      and mem: "cur \<in> set (steps w)"
      and fwd: "indexOf (steps w) cur < indexOf (steps w) tgt"
      and grd: "selectGuard cur w = None \<or>
                (\<exists>g v. selectGuard cur w = Some g \<and> v \<noteq> JBool False \<and>
                   g \<lparr>currentStep = cur, targetStep = tgt,
                      delta = Some (indexOf (steps w) tgt - indexOf (steps w) cur)\<rparr> = Resolved v)"
  shows "fst (isTargetStepAllowed cur tgt w) =
           Inr (\<not> (\<not> allowIncomplete w \<and>
                    (\<exists>i. indexOf (steps w) cur \<le> i \<and> i < indexOf (steps w) tgt \<and>
                         stateValid (heap w (steps w ! nat i)) \<noteq> Some True)))"
  using forward_move_result[OF par mem fwd grd] by auto

text \<open>
  The example of the specification: with steps \<open>A\<close>, \<open>B\<close>, \<open>C\<close>, only \<open>B\<close> invalid and
  incomplete steps not allowed, the move from \<open>A\<close> to \<open>C\<close> is vetoed and \<open>goTo\<close> leaves
  \<open>A\<close> active; the move from \<open>A\<close> to \<open>B\<close> is allowed and \<open>goTo\<close> makes \<open>B\<close> active.
\<close>

theorem forward_move_vetoed_iff_example:
  "nodeParent (heap exampleABC 0) \<and> 0 \<in> set (steps exampleABC) \<and>
   indexOf (steps exampleABC) 0 < indexOf (steps exampleABC) 2 \<and>
   selectGuard 0 exampleABC = None \<and>
   fst (isTargetStepAllowed 0 2 exampleABC) = Inr False \<and>
   fst (isTargetStepAllowed 0 1 exampleABC) = Inr True \<and>
   goTo (JStr ''C'') exampleABC = (None, exampleABC) \<and>
   activeStep (snd (goTo (JStr ''B'') exampleABC)) = Some ''B''"
proof -
  have h1: "nodeParent (heap exampleABC 0)" by code_simp
  have h2: "0 \<in> set (steps exampleABC)" by code_simp
  have h3: "indexOf (steps exampleABC) 0 < indexOf (steps exampleABC) 2" by code_simp
  have h4: "selectGuard 0 exampleABC = None"
    by (simp add: exampleABC_def exampleWorld_def stepsABC_def exampleStep_def selectGuard_def)
  have na: "\<not> allowIncomplete exampleABC" by code_simp
  have inv: "\<exists>i. indexOf (steps exampleABC) 0 \<le> i \<and> i < indexOf (steps exampleABC) 2 \<and>
                 stateValid (heap exampleABC (steps exampleABC ! nat i)) \<noteq> Some True"
    by (rule exI[of _ 1]) code_simp
  have veto: "fst (isTargetStepAllowed 0 2 exampleABC) = Inr False"
    using forward_move_vetoed_iff[OF h1 h2 h3 disjI1[OF h4]] na inv by simp
  have ok: "fst (isTargetStepAllowed 0 1 exampleABC) = Inr True" by code_simp
  have gc: "goTo (JStr ''C'') exampleABC = (None, exampleABC)"
    by (simp add: exampleABC_def exampleWorld_def stepsABC_def exampleStep_def goTo_def
          setActiveStep_def isTargetStepAllowed_def isTargetStepAllowed_start_def
          selectGuard_def parentAllowIncomplete_def parentIndexOf_def navigationRules_def
          intermediateLoop.simps itemAt_def Let_def)
  have gb: "activeStep (snd (goTo (JStr ''B'') exampleABC)) = Some ''B''" by code_simp
  show ?thesis using h1 h2 h3 h4 veto ok gc gb by simp
qed

text \<open>
  Claim C1 as stated fails: with steps \<open>A\<close>, \<open>B\<close>, incomplete steps not allowed and the
  current step \<open>A\<close> invalid, the move from \<open>A\<close> to its successor \<open>B\<close> is vetoed, though
  no step lies strictly between the two and \<open>B\<close> is valid.
\<close>

theorem forward_move_vetoed_by_current_step:
  "fst (isTargetStepAllowed 0 1 exampleInvalidA) = Inr False \<and>
   indexOf (steps exampleInvalidA) 0 = 0 \<and> indexOf (steps exampleInvalidA) 1 = 1 \<and>
   stateValid (heap exampleInvalidA 1) = Some True \<and>
   selectGuard 0 exampleInvalidA = None"
  by (simp add: exampleInvalidA_def exampleWorld_def stepsABC_def exampleStep_def
        isTargetStepAllowed_def isTargetStepAllowed_start_def
        selectGuard_def parentAllowIncomplete_def parentIndexOf_def navigationRules_def
        intermediateLoop.simps itemAt_def Let_def)

text \<open>
  Claim C2, as the code has it. For a backward move (the target's index is less than the
  current step's) the permission check does not look at any step's validity or at the
  policy: without a guard it answers true; with a guard it answers true when the guard
  resolves with anything but the boolean \<open>false\<close> and false exactly when it resolves
  with \<open>false\<close>; and a guard that rejects or throws stops the move as well, since the
  check then fails with the guard's error instead of answering.
\<close>

theorem backward_move_only_guard_vetoes:
  assumes par: "nodeParent (heap w cur)"
      and bwd: "indexOf (steps w) tgt < indexOf (steps w) cur"
  shows "fst (isTargetStepAllowed cur tgt w) =
           (case selectGuard cur w of
              None \<Rightarrow> Inr True
            | Some g \<Rightarrow>
                (case g \<lparr>currentStep = cur, targetStep = tgt,
                         delta = Some (indexOf (steps w) tgt - indexOf (steps w) cur)\<rparr> of
                   Resolved v \<Rightarrow> Inr (v \<noteq> JBool False)
                 | Rejected e \<Rightarrow> Inl (GuardRejected e)))"
proof -
  have ne: "cur \<noteq> tgt" using bwd by auto
  have nav: "navigationRules (allowIncomplete w) (Some (indexOf (steps w) cur))
               (Some (indexOf (steps w) tgt)) w = Inr True"
    using bwd by (simp add: navigationRules_def)
  show ?thesis
    by (simp add: isTargetStepAllowed_result[OF ne] parent_locals[OF par] indexDelta_def nav
             split: option.splits outcome.splits)
qed

text \<open>
  From \<open>C\<close> back to \<open>A\<close> over the invalid \<open>B\<close>, incomplete steps not allowed: allowed. The
  same move with a guard that answers false: vetoed.
\<close>

theorem backward_move_only_guard_vetoes_example:
  "nodeParent (heap exampleABC 2) \<and>
   indexOf (steps exampleABC) 0 < indexOf (steps exampleABC) 2 \<and>
   fst (isTargetStepAllowed 2 0 exampleABC) = Inr True \<and>
   nodeParent (heap (exampleGuarded guardFalse) 2) \<and>
   fst (isTargetStepAllowed 2 0 (exampleGuarded guardFalse)) = Inr False"
proof -
  have h1: "nodeParent (heap exampleABC 2)" by code_simp
  have h2: "indexOf (steps exampleABC) 0 < indexOf (steps exampleABC) 2" by code_simp
  have s1: "selectGuard 2 exampleABC = None"
    by (simp add: exampleABC_def exampleWorld_def stepsABC_def exampleStep_def selectGuard_def)
  have g1: "nodeParent (heap (exampleGuarded guardFalse) 2)" by code_simp
  have g2: "indexOf (steps (exampleGuarded guardFalse)) 0
              < indexOf (steps (exampleGuarded guardFalse)) 2" by code_simp
  have s2: "selectGuard 2 (exampleGuarded guardFalse) = Some guardFalse"
    by (simp add: exampleGuarded_def exampleWorld_def stepsABC_def exampleStep_def
          selectGuard_def)
  have a: "fst (isTargetStepAllowed 2 0 exampleABC) = Inr True"
    using backward_move_only_guard_vetoes[OF h1 h2] s1 by simp
  have b: "fst (isTargetStepAllowed 2 0 (exampleGuarded guardFalse)) = Inr False"
    using backward_move_only_guard_vetoes[OF g1 g2] s2 by (simp add: guardFalse_def)
  show ?thesis using h1 h2 a g1 b by simp
qed

text \<open>
  Claim C2 as stated fails: a guard returning false is not the only thing that stops a
  backward move. With the guard that throws, the check for the move from \<open>C\<close> back to
  \<open>A\<close> does not return true but fails, and \<open>goTo\<close> leaves \<open>C\<close> active.
\<close>

theorem backward_move_stopped_by_throwing_guard:
  "indexOf (steps (exampleGuarded guardThrows)) 0 < indexOf (steps (exampleGuarded guardThrows)) 2 \<and>
   fst (isTargetStepAllowed 2 0 (exampleGuarded guardThrows))
     = Inl (GuardRejected (JStr ''guard failed'')) \<and>
   fst (goTo (JStr ''A'') (exampleGuarded guardThrows))
     = Some (GuardRejected (JStr ''guard failed'')) \<and>
   activeStep (exampleGuarded guardThrows) = Some ''C'' \<and>
   activeStep (snd (goTo (JStr ''A'') (exampleGuarded guardThrows))) = Some ''C''"
  by (simp add: exampleGuarded_def exampleWorld_def stepsABC_def exampleStep_def
        guardThrows_def goTo_def setActiveStep_def
        isTargetStepAllowed_def isTargetStepAllowed_start_def isTargetStepAllowed_resume_def
        selectGuard_def parentAllowIncomplete_def parentIndexOf_def navigationRules_def
        indexDelta_def markPending_def intermediateLoop.simps itemAt_def Let_def)

section \<open>The navigation guard\<close>

text \<open>
  Claim C5, as the code has it. The guard in force is the one on the current step's own
  node and, when that step has none, the container's. For a move between two distinct
  steps from a step attached to the container, the permission check invokes that guard
  exactly once, with an argument that holds the current step and, as \<open>delta\<close>, the
  target's index minus the current step's index in the container's list. When the current
  step is the target, no guard is invoked.
\<close>

theorem guard_invoked_once:
  assumes par: "nodeParent (heap w cur)"
      and reg: "stepBeforeStepChange (heap w cur) = Some g \<or>
                (stepBeforeStepChange (heap w cur) = None \<and> beforeStepChange w = Some g)"
  shows "(cur \<noteq> tgt \<longrightarrow>
            (\<exists>d. guardCalls (snd (isTargetStepAllowed cur tgt w)) = guardCalls w @ [(g, d)] \<and>
                 currentStep d = cur \<and>
                 delta d = Some (indexOf (steps w) tgt - indexOf (steps w) cur))) \<and>
         guardCalls (snd (isTargetStepAllowed cur cur w)) = guardCalls w"
proof -
  have sel: "selectGuard cur w = Some g"
    using reg par by (auto simp: selectGuard_def)
  let ?d = "\<lparr>currentStep = cur, targetStep = tgt,
              delta = Some (indexOf (steps w) tgt - indexOf (steps w) cur)\<rparr>"
  have calls: "guardCalls (snd (isTargetStepAllowed cur tgt w)) = guardCalls w @ [(g, ?d)]"
    if "cur \<noteq> tgt"
    using that sel par
    by (auto simp: isTargetStepAllowed_def isTargetStepAllowed_start_def
          isTargetStepAllowed_resume_def Let_def parent_locals indexDelta_def
          markPending_def clearPending_def split: outcome.splits)
  have same: "guardCalls (snd (isTargetStepAllowed cur cur w)) = guardCalls w"
    by (simp add: isTargetStepAllowed_def isTargetStepAllowed_start_def)
  show ?thesis using calls same by auto
qed

text \<open>
  With the container's guard and steps \<open>A\<close>, \<open>B\<close>, \<open>C\<close>, the move from \<open>C\<close> to \<open>A\<close>
  calls the guard once, with the current step \<open>C\<close> and \<open>delta = -2\<close>; the move from
  \<open>C\<close> to \<open>C\<close> calls nothing.
\<close>

theorem guard_invoked_once_example:
  "nodeParent (heap (exampleGuarded guardUndefined) 2) \<and>
   stepBeforeStepChange (heap (exampleGuarded guardUndefined) 2) = None \<and>
   beforeStepChange (exampleGuarded guardUndefined) = Some guardUndefined \<and>
   length (guardCalls (snd (isTargetStepAllowed 2 0 (exampleGuarded guardUndefined)))) = 1 \<and>
   map (\<lambda>c. (currentStep (snd c), delta (snd c)))
     (guardCalls (snd (isTargetStepAllowed 2 0 (exampleGuarded guardUndefined)))) = [(2, Some (-2))] \<and>
   guardCalls (snd (isTargetStepAllowed 2 2 (exampleGuarded guardUndefined))) = []"
proof -
  let ?w = "exampleGuarded guardUndefined"
  have h1: "nodeParent (heap ?w 2)" by code_simp
  have h2: "stepBeforeStepChange (heap ?w 2) = None"
    by (simp add: exampleGuarded_def exampleWorld_def stepsABC_def exampleStep_def)
  have h3: "beforeStepChange ?w = Some guardUndefined"
    by (simp add: exampleGuarded_def exampleWorld_def)
  have c0: "guardCalls ?w = []" by (simp add: exampleGuarded_def exampleWorld_def)
  have ix: "indexOf (steps ?w) 0 - indexOf (steps ?w) 2 = -2" by code_simp
  from guard_invoked_once[OF h1 disjI2[OF conjI[OF h2 h3]], of 0]
  obtain d where d: "guardCalls (snd (isTargetStepAllowed 2 0 ?w)) = guardCalls ?w @ [(guardUndefined, d)]"
      "currentStep d = 2" "delta d = Some (indexOf (steps ?w) 0 - indexOf (steps ?w) 2)"
    and same: "guardCalls (snd (isTargetStepAllowed 2 2 ?w)) = guardCalls ?w"
    by auto
  show ?thesis using h1 h2 h3 d same c0 ix by simp
qed

text \<open>
  Claim C5 as stated fails: a guard registered on the target step's own node only is not
  invoked. With the guard on \<open>B\<close> alone, the move from \<open>A\<close> to \<open>B\<close> calls no guard
  and is allowed, although that guard answers false.
\<close>

theorem guard_on_target_not_invoked:
  "stepBeforeStepChange (heap exampleGuardOnB 1) = Some guardFalse \<and>
   guardCalls (snd (isTargetStepAllowed 0 1 exampleGuardOnB)) = [] \<and>
   fst (isTargetStepAllowed 0 1 exampleGuardOnB) = Inr True"
  by (simp add: exampleGuardOnB_def exampleWorld_def stepsABC_def exampleStep_def
        isTargetStepAllowed_def isTargetStepAllowed_start_def
        selectGuard_def parentAllowIncomplete_def parentIndexOf_def navigationRules_def
        intermediateLoop.simps itemAt_def Let_def)

text \<open>What a rejecting guard leaves behind: the world as marked before the call.\<close>

lemma isTargetStepAllowed_rejected:
  assumes ne: "cur \<noteq> tgt"
      and sel: "selectGuard cur w = Some g"
      and rej: "g \<lparr>currentStep = cur, targetStep = tgt,
                  delta = indexDelta (parentIndexOf cur tgt w) (parentIndexOf cur cur w)\<rparr>
                = Rejected e"
  shows "isTargetStepAllowed cur tgt w =
           (Inl (GuardRejected e),
            (markPending cur w)\<lparr>guardCalls := guardCalls (markPending cur w) @
               [(g, \<lparr>currentStep = cur, targetStep = tgt,
                      delta = indexDelta (parentIndexOf cur tgt w) (parentIndexOf cur cur w)\<rparr>)]\<rparr>)"
  using ne sel rej
  by (simp add: isTargetStepAllowed_def isTargetStepAllowed_start_def
        isTargetStepAllowed_resume_def Let_def)

text \<open>
  Claim C6, as the code has it. When a guard is invoked for a move between two distinct
  steps, the check answers false at once exactly when the guard resolves with the boolean
  \<open>false\<close>; for any other value it resolves with, the answer is that of the backward and
  forward rules. A guard that rejects or throws is not caught: the check itself fails with
  the guard's error, the container (with its loading message) and the current step stay
  disabled, and \<^verbatim>\<open>setActiveStep\<close> and \<^verbatim>\<open>incrementStep\<close> leave the active step as it was.
\<close>

theorem guard_false_vetoes_other_values_fall_through:
  assumes ne: "cur \<noteq> tgt"
      and sel: "selectGuard cur w = Some g"
  shows "(case g \<lparr>currentStep = cur, targetStep = tgt,
                  delta = indexDelta (parentIndexOf cur tgt w) (parentIndexOf cur cur w)\<rparr> of
            Resolved v \<Rightarrow>
              fst (isTargetStepAllowed cur tgt w) =
                (if v = JBool False then Inr False
                 else navigationRules (parentAllowIncomplete cur w) (parentIndexOf cur cur w)
                        (parentIndexOf cur tgt w) w)
          | Rejected e \<Rightarrow>
              fst (isTargetStepAllowed cur tgt w) = Inl (GuardRejected e) \<and>
              activeStep (snd (isTargetStepAllowed cur tgt w)) = activeStep w \<and>
              (nodeParent (heap w cur) \<longrightarrow>
                 disabled (snd (isTargetStepAllowed cur tgt w)) \<and>
                 loading (snd (isTargetStepAllowed cur tgt w)) \<and>
                 stepDisabled (heap (snd (isTargetStepAllowed cur tgt w)) cur)) \<and>
              (find (\<lambda>r. Some (nodeName (heap w r)) = activeStep w) (steps w) = Some cur \<longrightarrow>
                 activeStep (snd (setActiveStep (Some tgt) w)) = activeStep w \<and>
                 (nodeName (heap w tgt) \<noteq> [] \<and> nodeParent (heap w tgt) \<longrightarrow>
                    fst (setActiveStep (Some tgt) w) = Some (GuardRejected e))) \<and>
              (stepIndex (heap w cur) = Some idx \<and> itemAt (steps w) (int idx + dlt) = Some tgt \<longrightarrow>
                 activeStep (snd (incrementStep dlt (Some cur) w)) = activeStep w \<and>
                 (nodeName (heap w cur) \<noteq> [] \<and> nodeParent (heap w cur) \<longrightarrow>
                    fst (incrementStep dlt (Some cur) w) = Some (GuardRejected e))))"
proof (cases "g \<lparr>currentStep = cur, targetStep = tgt,
                  delta = indexDelta (parentIndexOf cur tgt w) (parentIndexOf cur cur w)\<rparr>")
  case (Resolved v)
  then show ?thesis
    by (simp add: isTargetStepAllowed_result[OF ne] sel)
next
  case (Rejected e)
  note r = isTargetStepAllowed_rejected[OF ne sel Rejected]
  have a: "activeStep (snd (isTargetStepAllowed cur tgt w)) = activeStep w"
    by (simp add: r markPending_def)
  have f: "nodeParent (heap w cur) \<longrightarrow>
                 disabled (snd (isTargetStepAllowed cur tgt w)) \<and>
                 loading (snd (isTargetStepAllowed cur tgt w)) \<and>
                 stepDisabled (heap (snd (isTargetStepAllowed cur tgt w)) cur)"
    by (simp add: r markPending_def)
  have s: "activeStep (snd (setActiveStep (Some tgt) w)) = activeStep w \<and>
           (nodeName (heap w tgt) \<noteq> [] \<and> nodeParent (heap w tgt) \<longrightarrow>
              fst (setActiveStep (Some tgt) w) = Some (GuardRejected e))"
    if "find (\<lambda>r. Some (nodeName (heap w r)) = activeStep w) (steps w) = Some cur"
    using that by (simp add: setActiveStep_def r markPending_def)
  have i: "activeStep (snd (incrementStep dlt (Some cur) w)) = activeStep w \<and>
           (nodeName (heap w cur) \<noteq> [] \<and> nodeParent (heap w cur) \<longrightarrow>
              fst (incrementStep dlt (Some cur) w) = Some (GuardRejected e))"
    if "stepIndex (heap w cur) = Some idx \<and> itemAt (steps w) (int idx + dlt) = Some tgt"
    using that by (simp add: incrementStep_def r markPending_def)
  show ?thesis
    using a f s i by (simp add: Rejected r)
qed

text \<open>
  All steps valid and incomplete steps allowed: the guard that answers false vetoes the
  move from \<open>A\<close> to \<open>B\<close>, the guard that answers nothing lets the rules allow it, and
  with the guard that throws the check for the move from \<open>C\<close> to \<open>A\<close> fails, the
  container and \<open>C\<close> stay disabled and \<^verbatim>\<open>setActiveStep\<close> leaves \<open>C\<close> active.
\<close>

theorem guard_false_vetoes_other_values_fall_through_example:
  "selectGuard 0 (exampleGuarded guardFalse) = Some guardFalse \<and>
   fst (isTargetStepAllowed 0 1 (exampleGuarded guardFalse)) = Inr False \<and>
   selectGuard 0 (exampleGuarded guardUndefined) = Some guardUndefined \<and>
   fst (isTargetStepAllowed 0 1 (exampleGuarded guardUndefined)) = Inr True \<and>
   selectGuard 2 (exampleGuarded guardThrows) = Some guardThrows \<and>
   fst (isTargetStepAllowed 2 0 (exampleGuarded guardThrows))
     = Inl (GuardRejected (JStr ''guard failed'')) \<and>
   disabled (snd (isTargetStepAllowed 2 0 (exampleGuarded guardThrows))) \<and>
   loading (snd (isTargetStepAllowed 2 0 (exampleGuarded guardThrows))) \<and>
   stepDisabled (heap (snd (isTargetStepAllowed 2 0 (exampleGuarded guardThrows))) 2) \<and>
   activeStep (snd (setActiveStep (Some 0) (exampleGuarded guardThrows))) = Some ''C''"
proof -
  have ne: "(0::ref) \<noteq> 1" by simp
  have ne2: "(2::ref) \<noteq> 0" by simp
  have s1: "selectGuard 0 (exampleGuarded guardFalse) = Some guardFalse"
    by (simp add: exampleGuarded_def exampleWorld_def stepsABC_def exampleStep_def
          selectGuard_def)
  have s2: "selectGuard 0 (exampleGuarded guardUndefined) = Some guardUndefined"
    by (simp add: exampleGuarded_def exampleWorld_def stepsABC_def exampleStep_def
          selectGuard_def)
  have s3: "selectGuard 2 (exampleGuarded guardThrows) = Some guardThrows"
    by (simp add: exampleGuarded_def exampleWorld_def stepsABC_def exampleStep_def
          selectGuard_def)
  have nav: "navigationRules (parentAllowIncomplete 0 (exampleGuarded guardUndefined))
               (parentIndexOf 0 0 (exampleGuarded guardUndefined))
               (parentIndexOf 0 1 (exampleGuarded guardUndefined))
               (exampleGuarded guardUndefined) = Inr True"
    by (simp add: exampleGuarded_def exampleWorld_def stepsABC_def exampleStep_def
          parentAllowIncomplete_def parentIndexOf_def navigationRules_def
          intermediateLoop.simps)
  have a: "fst (isTargetStepAllowed 0 1 (exampleGuarded guardFalse)) = Inr False"
    using guard_false_vetoes_other_values_fall_through[OF ne s1]
    by (simp add: guardFalse_def)
  have b: "fst (isTargetStepAllowed 0 1 (exampleGuarded guardUndefined)) = Inr True"
    using guard_false_vetoes_other_values_fall_through[OF ne s2] nav
    by (simp add: guardUndefined_def)
  have par: "nodeParent (heap (exampleGuarded guardThrows) 2)" by code_simp
  have cur: "find (\<lambda>r. Some (nodeName (heap (exampleGuarded guardThrows) r))
                        = activeStep (exampleGuarded guardThrows))
               (steps (exampleGuarded guardThrows)) = Some 2"
    by (simp add: exampleGuarded_def exampleWorld_def stepsABC_def exampleStep_def)
  have act: "activeStep (exampleGuarded guardThrows) = Some ''C''"
    by (simp add: exampleGuarded_def exampleWorld_def)
  have c: "fst (isTargetStepAllowed 2 0 (exampleGuarded guardThrows))
             = Inl (GuardRejected (JStr ''guard failed'')) \<and>
           disabled (snd (isTargetStepAllowed 2 0 (exampleGuarded guardThrows))) \<and>
           loading (snd (isTargetStepAllowed 2 0 (exampleGuarded guardThrows))) \<and>
           stepDisabled (heap (snd (isTargetStepAllowed 2 0 (exampleGuarded guardThrows))) 2) \<and>
           activeStep (snd (setActiveStep (Some 0) (exampleGuarded guardThrows))) = Some ''C''"
    using guard_false_vetoes_other_values_fall_through[OF ne2 s3] par cur act
    by (simp add: guardThrows_def)
  show ?thesis using s1 a s2 b s3 c by simp
qed

text \<open>
  Claim C6 as stated fails: a guard that throws is not treated as an allow. With all steps
  valid and incomplete steps allowed, the rules alone allow the move from \<open>A\<close> to \<open>B\<close>,
  but with the throwing guard the check fails with the guard's error and leaves the
  container disabled.
\<close>

theorem throwing_guard_is_not_an_allow:
  "fst (isTargetStepAllowed 0 1 (exampleGuarded guardThrows))
     = Inl (GuardRejected (JStr ''guard failed'')) \<and>
   navigationRules True (Some 0) (Some 1) (exampleGuarded guardThrows) = Inr True \<and>
   disabled (snd (isTargetStepAllowed 0 1 (exampleGuarded guardThrows))) \<and>
   loading (snd (isTargetStepAllowed 0 1 (exampleGuarded guardThrows)))"
  by (simp add: exampleGuarded_def exampleWorld_def stepsABC_def exampleStep_def
        guardThrows_def
        isTargetStepAllowed_def isTargetStepAllowed_start_def isTargetStepAllowed_resume_def
        selectGuard_def parentAllowIncomplete_def parentIndexOf_def navigationRules_def
        indexDelta_def markPending_def intermediateLoop.simps itemAt_def Let_def)

text \<open>
  Claim C7. When a guard is selected for a move between two distinct steps from a step
  attached to the container, the run of the check is suspended on that guard in a world
  where the container is disabled and carries the loading message and the current step is
  disabled; resumed with any value the guard resolves with, it leaves a world where all
  three are cleared.
\<close>

theorem disabled_while_guard_pending:
  assumes ne: "cur \<noteq> tgt"
      and par: "nodeParent (heap w cur)"
      and sel: "selectGuard cur w = Some g"
  shows "\<exists>d w1. isTargetStepAllowed_start cur tgt w = Awaiting g d w1 \<and>
           disabled w1 \<and> loading w1 \<and> stepDisabled (heap w1 cur) \<and>
           (\<forall>v. \<not> disabled (snd (isTargetStepAllowed_resume cur tgt (Resolved v) w1)) \<and>
                \<not> loading (snd (isTargetStepAllowed_resume cur tgt (Resolved v) w1)) \<and>
                \<not> stepDisabled (heap (snd (isTargetStepAllowed_resume cur tgt (Resolved v) w1)) cur))"
  using ne par sel
  by (simp add: isTargetStepAllowed_start_def isTargetStepAllowed_resume_def Let_def
        markPending_def clearPending_def)

theorem disabled_while_guard_pending_example:
  "nodeParent (heap (exampleGuarded guardUndefined) 0) \<and>
   selectGuard 0 (exampleGuarded guardUndefined) = Some guardUndefined \<and>
   (\<exists>d w1. isTargetStepAllowed_start 0 1 (exampleGuarded guardUndefined)
              = Awaiting guardUndefined d w1 \<and>
            disabled w1 \<and> loading w1 \<and> stepDisabled (heap w1 0) \<and>
            \<not> disabled (snd (isTargetStepAllowed_resume 0 1 (Resolved JUndefined) w1)) \<and>
            \<not> loading (snd (isTargetStepAllowed_resume 0 1 (Resolved JUndefined) w1)) \<and>
            \<not> stepDisabled (heap (snd (isTargetStepAllowed_resume 0 1 (Resolved JUndefined) w1)) 0))"
proof -
  have ne: "(0::ref) \<noteq> 1" by simp
  have h1: "nodeParent (heap (exampleGuarded guardUndefined) 0)" by code_simp
  have s: "selectGuard 0 (exampleGuarded guardUndefined) = Some guardUndefined"
    by (simp add: exampleGuarded_def exampleWorld_def stepsABC_def exampleStep_def
          selectGuard_def)
  show ?thesis using h1 s disabled_while_guard_pending[OF ne h1 s] by blast
qed

section \<open>The default policy\<close>

text \<open>
  Claim C10. When neither the node's \<^verbatim>\<open>allowIncomplete\<close> prop nor the plugin option of
  that name is a boolean, the plugin sets the container's policy to true, and then every
  forward move from a step of the list with no guard in force is allowed, whatever the
  validity of the steps.
\<close>

theorem allowIncomplete_defaults_to_true:
  assumes ctx: "hasContext w"
      and np: "typeof prop \<noteq> TBoolean"
      and no: "typeof (optionsAllowIncomplete options) \<noteq> TBoolean"
  shows "allowIncomplete (multiStepPlugin options prop w) \<and>
         (\<forall>cur tgt. nodeParent (heap w cur) \<and> cur \<in> set (steps w) \<and>
              indexOf (steps w) cur < indexOf (steps w) tgt \<and>
              selectGuard cur w = None \<longrightarrow>
              fst (isTargetStepAllowed cur tgt (multiStepPlugin options prop w)) = Inr True)"
proof -
  let ?w = "multiStepPlugin options prop w"
  have a: "allowIncomplete ?w"
    using ctx np no by (simp add: multiStepPlugin_def initialAllowIncomplete_def)
  have same: "heap ?w = heap w" "steps ?w = steps w" "selectGuard cur ?w = selectGuard cur w" for cur
    by (simp_all add: multiStepPlugin_def selectGuard_def split: option.splits)
  have "fst (isTargetStepAllowed cur tgt ?w) = Inr True"
    if "nodeParent (heap w cur)" "cur \<in> set (steps w)"
       "indexOf (steps w) cur < indexOf (steps w) tgt" "selectGuard cur w = None" for cur tgt
    using forward_move_result[of ?w cur tgt] that a by (simp add: same)
  then show ?thesis using a by blast
qed

text \<open>
  The example container, whose policy was false, set up again with no prop and no options:
  the policy is true and the move from \<open>A\<close> to \<open>C\<close> over the invalid \<open>B\<close> is allowed.
\<close>

theorem allowIncomplete_defaults_to_true_example:
  "hasContext exampleABC \<and> typeof JUndefined \<noteq> TBoolean \<and>
   typeof (optionsAllowIncomplete None) \<noteq> TBoolean \<and>
   allowIncomplete (multiStepPlugin None JUndefined exampleABC) \<and>
   fst (isTargetStepAllowed 0 2 (multiStepPlugin None JUndefined exampleABC)) = Inr True"
proof -
  have h1: "hasContext exampleABC" by code_simp
  have h2: "typeof JUndefined \<noteq> TBoolean" by simp
  have h3: "typeof (optionsAllowIncomplete None) \<noteq> TBoolean"
    by (simp add: optionsAllowIncomplete_def)
  have p: "nodeParent (heap exampleABC 0) \<and> 0 \<in> set (steps exampleABC) \<and>
           indexOf (steps exampleABC) 0 < indexOf (steps exampleABC) 2 \<and>
           selectGuard 0 exampleABC = None"
    by (simp add: exampleABC_def exampleWorld_def stepsABC_def exampleStep_def selectGuard_def)
  from allowIncomplete_defaults_to_true[OF h1 h2 h3]
  have a: "allowIncomplete (multiStepPlugin None JUndefined exampleABC)"
    and b: "\<forall>cur tgt. nodeParent (heap exampleABC cur) \<and> cur \<in> set (steps exampleABC) \<and>
              indexOf (steps exampleABC) cur < indexOf (steps exampleABC) tgt \<and>
              selectGuard cur exampleABC = None \<longrightarrow>
              fst (isTargetStepAllowed cur tgt (multiStepPlugin None JUndefined exampleABC)) = Inr True"
    by blast+
  from b p have "fst (isTargetStepAllowed 0 2 (multiStepPlugin None JUndefined exampleABC)) = Inr True"
    by blast
  then show ?thesis using h1 h2 h3 a by simp
qed

section \<open>Facts about the step registry\<close>

lemma setPositions_other:
  "r \<notin> set rs \<Longrightarrow> setPositions all i rs h r = h r"
  by (induction rs arbitrary: i h) auto

lemma setPositions_nodeName [simp]:
  "nodeName (setPositions all i rs h r) = nodeName (h r)"
  by (induction rs arbitrary: i h) auto

lemma setPositions_at:
  "distinct rs \<Longrightarrow> k < length rs \<Longrightarrow>
   setPositions all i rs h (rs ! k) =
     (h (rs ! k))\<lparr>isFirstStep := (i + k = 0),
                   isLastStep := (int (i + k) = int (length all) - 1),
                   stepIndex := Some (i + k),
                   stepSteps := all\<rparr>"
proof (induction rs arbitrary: i h k)
  case Nil
  then show ?case by simp
next
  case (Cons r rs)
  show ?case
  proof (cases k)
    case 0
    then show ?thesis using Cons.prems by (simp add: setPositions_other)
  next
    case (Suc j)
    then have "rs ! j \<noteq> r" using Cons.prems by auto
    then show ?thesis using Suc Cons.prems Cons.IH[of j] by simp
  qed
qed

text \<open>
  After \<^verbatim>\<open>setNodePositionProps\<close> on a list without repetition, every step of the list
  holds its position.
\<close>

lemma setNodePositionProps_positions:
  assumes "distinct ss" "k < length ss"
  shows "isFirstStep (heap (setNodePositionProps ss w) (ss ! k)) = (k = 0) \<and>
         isLastStep (heap (setNodePositionProps ss w) (ss ! k)) = (k = length ss - 1) \<and>
         stepIndex (heap (setNodePositionProps ss w) (ss ! k)) = Some k \<and>
         stepSteps (heap (setNodePositionProps ss w) (ss ! k)) = ss"
  using assms setPositions_at[OF assms, of ss 0 "heap w"]
  by (auto simp: setNodePositionProps_def)

lemma insertBy_set [simp]: "set (insertBy cmp x xs) = insert x (set xs)"
  by (induction xs) auto

lemma insertBy_distinct: "distinct xs \<Longrightarrow> x \<notin> set xs \<Longrightarrow> distinct (insertBy cmp x xs)"
  by (induction xs) auto

lemma insertBy_length [simp]: "length (insertBy cmp x xs) = Suc (length xs)"
  by (induction xs) auto

lemma sortBy_set [simp]: "set (sortBy cmp xs) = set xs"
  by (induction xs) (auto simp: sortBy_def)

lemma sortBy_distinct: "distinct xs \<Longrightarrow> distinct (sortBy cmp xs)"
proof (induction xs)
  case Nil
  then show ?case by (simp add: sortBy_def)
next
  case (Cons x xs)
  then have "distinct (sortBy cmp xs)" "x \<notin> set (sortBy cmp xs)" by auto
  then have "distinct (insertBy cmp x (sortBy cmp xs))" by (rule insertBy_distinct)
  then show ?case by (simp add: sortBy_def)
qed

lemma orderSteps_distinct: "distinct ss \<Longrightarrow> distinct (fst (orderSteps ss w))"
  by (simp add: orderSteps_def Let_def sortBy_distinct)

lemma orderSteps_set: "set (fst (orderSteps ss w)) = set ss"
  by (simp add: orderSteps_def Let_def)

text \<open>What the \<^verbatim>\<open>child\<close> handler leaves in the list and in the position fields.\<close>

lemma child_steps:
  "steps (child c w) =
     fst (orderSteps (filter (\<lambda>r. \<not> isPlaceholder (heap w r)) (steps w) @ [c]) w)"
  by (cases "filter (\<lambda>r. \<not> isPlaceholder (heap w r)) (steps w) = []")
     (auto simp: child_def Let_def setNodePositionProps_def split: prod.splits)

lemma child_position_fields:
  "isFirstStep (heap (child c w) r) =
     isFirstStep (heap (setNodePositionProps (steps (child c w)) (snd (orderSteps (filter (\<lambda>r. \<not> isPlaceholder (heap w r)) (steps w) @ [c]) w))) r) \<and>
   isLastStep (heap (child c w) r) =
     isLastStep (heap (setNodePositionProps (steps (child c w)) (snd (orderSteps (filter (\<lambda>r. \<not> isPlaceholder (heap w r)) (steps w) @ [c]) w))) r) \<and>
   stepIndex (heap (child c w) r) =
     stepIndex (heap (setNodePositionProps (steps (child c w)) (snd (orderSteps (filter (\<lambda>r. \<not> isPlaceholder (heap w r)) (steps w) @ [c]) w))) r) \<and>
   stepSteps (heap (child c w) r) =
     stepSteps (heap (setNodePositionProps (steps (child c w)) (snd (orderSteps (filter (\<lambda>r. \<not> isPlaceholder (heap w r)) (steps w) @ [c]) w))) r)"
  by (cases "filter (\<lambda>r. \<not> isPlaceholder (heap w r)) (steps w) = []")
     (auto simp: child_def Let_def setNodePositionProps_def split: prod.splits)

lemma child_distinct:
  assumes "distinct (steps w)" "c \<notin> set (steps w)"
  shows "distinct (steps (child c w))"
  unfolding child_steps using assms by (intro orderSteps_distinct) auto

text \<open>What the filter of the \<^verbatim>\<open>childRemoved\<close> handler keeps and which index it records.\<close>

lemma filterRemoved_kept:
  "fst (filterRemoved h nm rs i removed) = filter (\<lambda>r. nodeName (h r) \<noteq> nm) rs"
proof (induction rs arbitrary: i removed)
  case Nil
  then show ?case by simp
next
  case (Cons r rs)
  show ?case
  proof (cases "nodeName (h r) \<noteq> nm")
    case True
    obtain kept rem where k: "filterRemoved h nm rs (Suc i) removed = (kept, rem)"
      by (cases "filterRemoved h nm rs (Suc i) removed")
    have "kept = filter (\<lambda>r. nodeName (h r) \<noteq> nm) rs"
      using Cons.IH[of "Suc i" removed] k by simp
    then show ?thesis using True k by simp
  next
    case False
    then show ?thesis using Cons.IH[of "Suc i" "int i"] by simp
  qed
qed

lemma filterRemoved_none:
  "\<forall>r \<in> set rs. nodeName (h r) \<noteq> nm \<Longrightarrow> filterRemoved h nm rs i removed = (rs, removed)"
  by (induction rs arbitrary: i removed) auto

lemma filterRemoved_unique:
  "distinct (map (\<lambda>r. nodeName (h r)) rs) \<Longrightarrow> k < length rs \<Longrightarrow>
   nodeName (h (rs ! k)) = nm \<Longrightarrow>
   filterRemoved h nm rs i removed = (take k rs @ drop (Suc k) rs, int (i + k))"
proof (induction rs arbitrary: i removed k)
  case Nil
  then show ?case by simp
next
  case (Cons r rs)
  show ?case
  proof (cases k)
    case 0
    then have nm: "nodeName (h r) = nm" using Cons.prems by simp
    have "\<forall>x \<in> set rs. nodeName (h x) \<noteq> nm"
    proof
      fix x assume "x \<in> set rs"
      then have "nodeName (h x) \<in> set (map (\<lambda>r. nodeName (h r)) rs)" by simp
      moreover have "nodeName (h r) \<notin> set (map (\<lambda>r. nodeName (h r)) rs)"
        using Cons.prems(1) by simp
      ultimately show "nodeName (h x) \<noteq> nm" using nm by metis
    qed
    then show ?thesis using 0 nm by (simp add: filterRemoved_none)
  next
    case (Suc j)
    have "nodeName (h (rs ! j)) \<in> set (map (\<lambda>r. nodeName (h r)) rs)"
      using Suc Cons.prems(2) by auto
    then have "nodeName (h r) \<noteq> nm" using Suc Cons.prems by auto
    then show ?thesis using Suc Cons.prems Cons.IH[of j "Suc i" removed] by simp
  qed
qed

lemma childRemoved_steps:
  "steps (childRemoved c w) = filter (\<lambda>r. nodeName (heap w r) \<noteq> nodeName (heap w c)) (steps w)"
proof -
  have "(\<lambda>r. nodeName (((heap w)(c := (heap w c)\<lparr>ordered := False\<rparr>)) r) \<noteq> nodeName (heap w c))
      = (\<lambda>r. nodeName (heap w r) \<noteq> nodeName (heap w c))"
    by auto
  then show ?thesis
    using filterRemoved_kept[of "(heap w)(c := (heap w c)\<lparr>ordered := False\<rparr>)"
        "nodeName (heap w c)" "steps w" 0 "-1"]
    by (auto simp: childRemoved_def Let_def setNodePositionProps_def split: prod.splits)
qed

lemma childRemoved_heap:
  "heap (childRemoved c w) =
     heap (setNodePositionProps (steps (childRemoved c w))
             (w\<lparr>heap := (heap w)(c := (heap w c)\<lparr>ordered := False\<rparr>)\<rparr>))"
proof -
  have "(\<lambda>r. nodeName (((heap w)(c := (heap w c)\<lparr>ordered := False\<rparr>)) r) \<noteq> nodeName (heap w c))
      = (\<lambda>r. nodeName (heap w r) \<noteq> nodeName (heap w c))"
    by auto
  then show ?thesis
    using filterRemoved_kept[of "(heap w)(c := (heap w c)\<lparr>ordered := False\<rparr>)"
        "nodeName (heap w c)" "steps w" 0 "-1"]
    by (auto simp: childRemoved_def Let_def setNodePositionProps_def split: prod.splits)
qed

lemma childRemoved_nodeName [simp]:
  "nodeName (heap (childRemoved c w) r) = nodeName (heap w r)"
  by (simp add: childRemoved_heap setNodePositionProps_def)

section \<open>Position metadata and the active step\<close>

text \<open>
  Claim C8. The step list holds each step object once. After the attach of a step that is
  not yet in the list, and after every detach, every step of the container's list has
  \<open>isFirstStep\<close> exactly at index 0, \<open>isLastStep\<close> exactly at index \<open>length - 1\<close>,
  \<open>stepIndex\<close> equal to its index and the full current list as its back-reference; and
  the list still holds each step once.
\<close>

theorem position_props_after_attach_and_detach:
  assumes dist: "distinct (steps w)"
  shows "(c \<notin> set (steps w) \<longrightarrow>
            distinct (steps (child c w)) \<and>
            (\<forall>k < length (steps (child c w)).
               isFirstStep (heap (child c w) (steps (child c w) ! k)) = (k = 0) \<and>
               isLastStep (heap (child c w) (steps (child c w) ! k))
                 = (k = length (steps (child c w)) - 1) \<and>
               stepIndex (heap (child c w) (steps (child c w) ! k)) = Some k \<and>
               stepSteps (heap (child c w) (steps (child c w) ! k)) = steps (child c w))) \<and>
         distinct (steps (childRemoved c' w)) \<and>
         (\<forall>k < length (steps (childRemoved c' w)).
            isFirstStep (heap (childRemoved c' w) (steps (childRemoved c' w) ! k)) = (k = 0) \<and>
            isLastStep (heap (childRemoved c' w) (steps (childRemoved c' w) ! k))
              = (k = length (steps (childRemoved c' w)) - 1) \<and>
            stepIndex (heap (childRemoved c' w) (steps (childRemoved c' w) ! k)) = Some k \<and>
            stepSteps (heap (childRemoved c' w) (steps (childRemoved c' w) ! k))
              = steps (childRemoved c' w))"
proof -
  have attach: "distinct (steps (child c w)) \<and>
            (\<forall>k < length (steps (child c w)).
               isFirstStep (heap (child c w) (steps (child c w) ! k)) = (k = 0) \<and>
               isLastStep (heap (child c w) (steps (child c w) ! k))
                 = (k = length (steps (child c w)) - 1) \<and>
               stepIndex (heap (child c w) (steps (child c w) ! k)) = Some k \<and>
               stepSteps (heap (child c w) (steps (child c w) ! k)) = steps (child c w))"
    if fresh: "c \<notin> set (steps w)"
  proof -
    have d: "distinct (steps (child c w))" by (rule child_distinct[OF dist fresh])
    show ?thesis
      using d setNodePositionProps_positions[OF d] child_position_fields[of c w]
      by simp
  qed
  have d': "distinct (steps (childRemoved c' w))"
    using dist by (simp add: childRemoved_steps)
  have detach: "\<forall>k < length (steps (childRemoved c' w)).
            isFirstStep (heap (childRemoved c' w) (steps (childRemoved c' w) ! k)) = (k = 0) \<and>
            isLastStep (heap (childRemoved c' w) (steps (childRemoved c' w) ! k))
              = (k = length (steps (childRemoved c' w)) - 1) \<and>
            stepIndex (heap (childRemoved c' w) (steps (childRemoved c' w) ! k)) = Some k \<and>
            stepSteps (heap (childRemoved c' w) (steps (childRemoved c' w) ! k))
              = steps (childRemoved c' w)"
    using setNodePositionProps_positions[OF d']
    by (subst (1 2 3 4) childRemoved_heap) simp
  show ?thesis using attach d' detach by blast
qed

text \<open>
  Attaching a fourth step to \<open>A\<close>, \<open>B\<close>, \<open>C\<close> makes it the last step at index 3 and
  \<open>C\<close> no longer the last; detaching \<open>B\<close> leaves \<open>A\<close>, \<open>C\<close> with \<open>C\<close> last at index 1.
\<close>

theorem position_props_after_attach_and_detach_example:
  "distinct (steps exampleABC) \<and> 3 \<notin> set (steps exampleABC) \<and>
   steps (child 3 exampleABC) = [0, 1, 2, 3] \<and>
   stepIndex (heap (child 3 exampleABC) 3) = Some 3 \<and>
   isLastStep (heap (child 3 exampleABC) 3) \<and>
   \<not> isLastStep (heap (child 3 exampleABC) 2) \<and>
   stepSteps (heap (child 3 exampleABC) 0) = [0, 1, 2, 3] \<and>
   steps (childRemoved 1 exampleABC) = [0, 2] \<and>
   stepIndex (heap (childRemoved 1 exampleABC) 2) = Some 1 \<and>
   isLastStep (heap (childRemoved 1 exampleABC) 2) \<and>
   isFirstStep (heap (childRemoved 1 exampleABC) 0)"
proof -
  have h1: "distinct (steps exampleABC)" by code_simp
  have h2: "3 \<notin> set (steps exampleABC)" by code_simp
  have s1: "steps (child 3 exampleABC) = [0, 1, 2, 3]" by code_simp
  have s2: "steps (childRemoved 1 exampleABC) = [0, 2]" by code_simp
  note t = position_props_after_attach_and_detach[OF h1, of 3 1]
  from t h2 have a: "\<forall>k < length (steps (child 3 exampleABC)).
               isFirstStep (heap (child 3 exampleABC) (steps (child 3 exampleABC) ! k)) = (k = 0) \<and>
               isLastStep (heap (child 3 exampleABC) (steps (child 3 exampleABC) ! k))
                 = (k = length (steps (child 3 exampleABC)) - 1) \<and>
               stepIndex (heap (child 3 exampleABC) (steps (child 3 exampleABC) ! k)) = Some k \<and>
               stepSteps (heap (child 3 exampleABC) (steps (child 3 exampleABC) ! k))
                 = steps (child 3 exampleABC)"
    by blast
  from t have b: "\<forall>k < length (steps (childRemoved 1 exampleABC)).
            isFirstStep (heap (childRemoved 1 exampleABC) (steps (childRemoved 1 exampleABC) ! k)) = (k = 0) \<and>
            isLastStep (heap (childRemoved 1 exampleABC) (steps (childRemoved 1 exampleABC) ! k))
              = (k = length (steps (childRemoved 1 exampleABC)) - 1) \<and>
            stepIndex (heap (childRemoved 1 exampleABC) (steps (childRemoved 1 exampleABC) ! k)) = Some k \<and>
            stepSteps (heap (childRemoved 1 exampleABC) (steps (childRemoved 1 exampleABC) ! k))
              = steps (childRemoved 1 exampleABC)"
    by blast
  have a3: "stepIndex (heap (child 3 exampleABC) 3) = Some 3 \<and>
            isLastStep (heap (child 3 exampleABC) 3)"
    using a[rule_format, of 3, unfolded s1] by simp
  have a2: "\<not> isLastStep (heap (child 3 exampleABC) 2)"
    using a[rule_format, of 2, unfolded s1] by simp
  have a0: "stepSteps (heap (child 3 exampleABC) 0) = [0, 1, 2, 3]"
    using a[rule_format, of 0, unfolded s1] by simp
  have b1: "stepIndex (heap (childRemoved 1 exampleABC) 2) = Some 1 \<and>
            isLastStep (heap (childRemoved 1 exampleABC) 2)"
    using b[rule_format, of 1, unfolded s2] by simp
  have b0: "isFirstStep (heap (childRemoved 1 exampleABC) 0)"
    using b[rule_format, of 0, unfolded s2] by simp
  show ?thesis using h1 h2 s1 s2 a3 a2 a0 b1 b0 by simp
qed

text \<open>
  Claim C4, as the code has it. The handler finds the removed step by its name. In a
  container whose step names are pairwise distinct, when the step at index \<open>i\<close> is removed
  and it is the active step, the step list loses that step and the active step becomes the
  step at index \<open>max (i - 1) 0\<close> of the remaining list, or the empty string when no step
  remains. In every container, when the removed step's name is not the active one, the
  active step is unchanged.
\<close>

theorem removing_active_step_selects_predecessor:
  "(activeStep w \<noteq> Some (nodeName (heap w c)) \<longrightarrow>
      activeStep (childRemoved c w) = activeStep w) \<and>
   (distinct (map (\<lambda>r. nodeName (heap w r)) (steps w)) \<and> i < length (steps w) \<and>
    nodeName (heap w (steps w ! i)) = nodeName (heap w c) \<and>
    activeStep w = Some (nodeName (heap w c)) \<longrightarrow>
      steps (childRemoved c w) = take i (steps w) @ drop (Suc i) (steps w) \<and>
      activeStep (childRemoved c w) =
        Some (if steps (childRemoved c w) = [] then []
              else nodeName (heap (childRemoved c w)
                     (steps (childRemoved c w) ! nat (max (int i - 1) 0)))))"
proof -
  let ?nm = "nodeName (heap w c)"
  let ?h0 = "(heap w)(c := (heap w c)\<lparr>ordered := False\<rparr>)"
  have names: "(\<lambda>r. nodeName (?h0 r)) = (\<lambda>r. nodeName (heap w r))" by auto
  have other: "activeStep (childRemoved c w) = activeStep w"
    if "activeStep w \<noteq> Some ?nm"
    using that
    by (auto simp: childRemoved_def Let_def setNodePositionProps_def split: prod.splits)
  have active: "steps (childRemoved c w) = take i (steps w) @ drop (Suc i) (steps w) \<and>
      activeStep (childRemoved c w) =
        Some (if steps (childRemoved c w) = [] then []
              else nodeName (heap (childRemoved c w)
                     (steps (childRemoved c w) ! nat (max (int i - 1) 0))))"
    if d: "distinct (map (\<lambda>r. nodeName (heap w r)) (steps w))" and i: "i < length (steps w)"
      and nm: "nodeName (heap w (steps w ! i)) = ?nm" and act: "activeStep w = Some ?nm"
  proof -
    let ?ss = "take i (steps w) @ drop (Suc i) (steps w)"
    have d0: "distinct (map (\<lambda>r. nodeName (?h0 r)) (steps w))" using d names by simp
    have nm0: "nodeName (?h0 (steps w ! i)) = ?nm" using nm by simp
    have z: "0 + i = i" by simp
    have fr: "filterRemoved ?h0 ?nm (steps w) 0 (-1) = (?ss, int i)"
      by (rule filterRemoved_unique[OF d0 i nm0, of 0 "-1", unfolded z])
    have len: "length ?ss = length (steps w) - 1" using i by simp
    have st: "steps (childRemoved c w) = ?ss"
      unfolding childRemoved_def Let_def by (simp add: fr setNodePositionProps_def)
    have ac: "activeStep (childRemoved c w) =
        Some (case itemAt ?ss (if int i > 0 then int i - 1 else 0) of
                Some r \<Rightarrow> nodeName (heap w r) | None \<Rightarrow> [])"
      unfolding childRemoved_def Let_def
      by (auto simp: fr act setNodePositionProps_def split: option.splits)
    have tgt: "(if int i > 0 then int i - 1 else 0) = max (int i - 1) 0" by auto
    have "itemAt ?ss (max (int i - 1) 0) =
            (if ?ss = [] then None else Some (?ss ! nat (max (int i - 1) 0)))"
    proof (cases "?ss = []")
      case True
      show ?thesis unfolding True by (simp add: itemAt_def)
    next
      case False
      then have "length ?ss > 0" by blast
      then have "max (int i - 1) 0 < int (length ?ss)" using i len by auto
      then show ?thesis using False by (simp add: itemAt_def)
    qed
    then have "activeStep (childRemoved c w) =
        Some (if ?ss = [] then [] else nodeName (heap w (?ss ! nat (max (int i - 1) 0))))"
      unfolding ac tgt by simp
    then show ?thesis using st by simp
  qed
  show ?thesis using other active by blast
qed

text \<open>
  Removing the active step \<open>A\<close> at index 0 makes \<open>B\<close>, the new first step, active;
  removing \<open>C\<close> while \<open>A\<close> is active leaves \<open>A\<close> active.
\<close>

theorem removing_active_step_selects_predecessor_example:
  "distinct (map (\<lambda>r. nodeName (heap exampleABC r)) (steps exampleABC)) \<and>
   0 < length (steps exampleABC) \<and>
   nodeName (heap exampleABC (steps exampleABC ! 0)) = nodeName (heap exampleABC 0) \<and>
   activeStep exampleABC = Some (nodeName (heap exampleABC 0)) \<and>
   steps (childRemoved 0 exampleABC) = [1, 2] \<and>
   activeStep (childRemoved 0 exampleABC) = Some ''B'' \<and>
   activeStep exampleABC \<noteq> Some (nodeName (heap exampleABC 2)) \<and>
   activeStep (childRemoved 2 exampleABC) = Some ''A''"
proof -
  have h1: "distinct (map (\<lambda>r. nodeName (heap exampleABC r)) (steps exampleABC))"
    by code_simp
  have h2: "0 < length (steps exampleABC)" by code_simp
  have h3: "nodeName (heap exampleABC (steps exampleABC ! 0)) = nodeName (heap exampleABC 0)"
    by code_simp
  have h4: "activeStep exampleABC = Some (nodeName (heap exampleABC 0))" by code_simp
  have h5: "activeStep exampleABC \<noteq> Some (nodeName (heap exampleABC 2))" by code_simp
  have st: "steps exampleABC = [0, 1, 2]" by code_simp
  have n1: "nodeName (heap exampleABC 1) = ''B''" by code_simp
  have aA: "activeStep exampleABC = Some ''A''" by code_simp
  from removing_active_step_selects_predecessor[of exampleABC 0 0] h1 h2 h3 h4
  have a: "steps (childRemoved 0 exampleABC) = take 0 (steps exampleABC) @ drop (Suc 0) (steps exampleABC)"
    and b: "activeStep (childRemoved 0 exampleABC) =
        Some (if steps (childRemoved 0 exampleABC) = [] then []
              else nodeName (heap (childRemoved 0 exampleABC)
                     (steps (childRemoved 0 exampleABC) ! nat (max (int 0 - 1) 0))))"
    by blast+
  have a': "steps (childRemoved 0 exampleABC) = [1, 2]" using a st by simp
  have b': "activeStep (childRemoved 0 exampleABC) = Some ''B''"
    using b a' n1 by simp
  from removing_active_step_selects_predecessor[of exampleABC 2 0] h5
  have c: "activeStep (childRemoved 2 exampleABC) = activeStep exampleABC" by blast
  show ?thesis using h1 h2 h3 h4 h5 a' b' c aA by simp
qed

text \<open>
  Claim C4 as stated fails for a container with a repeated step name. With steps named
  \<open>A\<close>, \<open>B\<close>, \<open>A\<close>, \<open>C\<close> and \<open>A\<close> active, removing the step at index 0 drops both
  steps named \<open>A\<close>, and the active step becomes \<open>C\<close>, not the step \<open>B\<close> at index
  \<open>max (0 - 1) 0 = 0\<close> of the remaining list.
\<close>

theorem removing_active_step_with_repeated_name:
  "indexOf (steps exampleDuplicateNames) 0 = 0 \<and>
   activeStep exampleDuplicateNames = Some (nodeName (heap exampleDuplicateNames 0)) \<and>
   steps (childRemoved 0 exampleDuplicateNames) = [1, 3] \<and>
   nodeName (heap (childRemoved 0 exampleDuplicateNames) 1) = ''B'' \<and>
   activeStep (childRemoved 0 exampleDuplicateNames) = Some ''C''"
  by code_simp

section \<open>Facts about the local-storage plugin\<close>

lemma storageKey_frame [simp]:
  "storageKey options (s\<lparr>now := t\<rparr>) = storageKey options s"
  "storageKey options (s\<lparr>storage := st\<rparr>) = storageKey options s"
  "storageKey options (s\<lparr>saveTimeout := tm\<rparr>) = storageKey options s"
  "storageKey options (s\<lparr>useLocalStorage := u\<rparr>) = storageKey options s"
  "storageKey options (s\<lparr>formValue := v\<rparr>) = storageKey options s"
  "storageKey options (s\<lparr>nodeAt := n\<rparr>) = storageKey options s"
  by (simp_all add: storageKey_def)

text \<open>Without a \<^verbatim>\<open>beforeSave\<close> hook a truthy payload is written with its expiry.\<close>

lemma saveValue_plain:
  "beforeSaveOf options = None \<Longrightarrow> truthy V \<Longrightarrow>
   saveValue add options V s =
     s\<lparr>storage := (storage s)(storageKey options s \<mapsto>
          \<lparr>entryMaxAge = expiryToJson (add (now s) (maxAgeOf options)),
           entryData = JSON_stringify V\<rparr>)\<rparr>"
  by (simp add: saveValue_def)

text \<open>
  Without a \<^verbatim>\<open>beforeLoad\<close> hook, loading a stored entry whose data are an object hands
  them to \<^verbatim>\<open>node.input\<close> while the stored expiry lies after the clock, and removes the
  entry otherwise.
\<close>

lemma loadValue_plain:
  assumes "beforeLoadOf options = None"
      and "storage s (storageKey options s) = Some e"
      and "entryData e = Some j" and "typeof (JSON_parse j) = TObject"
  shows "loadValue options None s =
           (if maxAgeAfter (entryMaxAge e) (now s) then nodeInput options (JSON_parse j) s
            else s\<lparr>storage := (storage s)(storageKey options s := None)\<rparr>)"
  using assms by (simp add: loadValue_def)

text \<open>The commit handler does nothing while the closure variable is off.\<close>

lemma commit_off: "\<not> useLocalStorage s \<Longrightarrow> commit options payload s = s"
  by (simp add: commit_def)

text \<open>
  A commit of the control field with a value other than \<open>true\<close> switches the variable off
  and removes the stored entry.
\<close>

lemma controlCommit_off:
  assumes "controlOf options = Some address" "nodeAt s address = Some old" "v \<noteq> JBool True"
  shows "\<not> useLocalStorage (controlCommit undefine options v s) \<and>
         storage (controlCommit undefine options v s) (storageKey options s) = None"
  using assms by (simp add: controlCommit_def shouldUseLocalStorage_def Let_def)

text \<open>The commit handler and \<^verbatim>\<open>node.input\<close> leave the store and the variable alone.\<close>

lemma commit_frame [simp]:
  "useLocalStorage (commit options v s) = useLocalStorage s"
  "now (commit options v s) = now s"
  "formName (commit options v s) = formName s"
  "storage (commit options v s) = storage s"
  "formValue (commit options v s) = formValue s"
  by (simp_all add: commit_def)

lemma nodeInput_frame [simp]:
  "useLocalStorage (nodeInput options v s) = useLocalStorage s"
  "now (nodeInput options v s) = now s"
  "formName (nodeInput options v s) = formName s"
  "storage (nodeInput options v s) = storage s"
  by (cases v; simp add: nodeInput_def)+

lemma nodeInput_object [simp]: "formValue (nodeInput options (JObj fs) s) = JObj fs"
  by (simp add: nodeInput_def)

lemma loadValue_frame [simp]:
  "useLocalStorage (loadValue options f s) = useLocalStorage s"
  "now (loadValue options f s) = now s"
  "formName (loadValue options f s) = formName s"
  by (auto simp: loadValue_def Let_def split: option.splits outcome.splits prod.splits)

lemma storageKey_loadValue [simp]:
  "storageKey options (loadValue options' f s) = storageKey options s"
  by (simp add: storageKey_def)

section \<open>Saving and loading the form value\<close>

text \<open>
  Claim C3, as the code has it. With no \<^verbatim>\<open>beforeSave\<close> and no \<^verbatim>\<open>beforeLoad\<close> hook, for
  every form value \<open>V\<close> that is a plain object and that JSON serialisation reproduces
  (\<^verbatim>\<open>JSON.parse(JSON.stringify(V))\<close> is \<open>V\<close> again), and for the expiry that
  \<^verbatim>\<open>saveValue\<close> stores, which is the sum \<^verbatim>\<open>Date.now() + maxAge\<close> as the engine computes
  it: when that sum is a finite number, saving \<open>V\<close> and loading at a time before it sets
  the form value to \<open>V\<close> and keeps the entry, and loading at or after it leaves the form
  value as it was and removes the entry from the store; when the sum is not finite it is
  stored as \<^verbatim>\<open>null\<close>, and loading at any time from 0 on leaves the form value as it
  was and removes the entry.
\<close>

theorem save_then_load_round_trip:
  assumes nosave: "beforeSaveOf options = None"
      and noload: "beforeLoadOf options = None"
      and obj: "V = JObj fs"
      and rep: "map_option JSON_parse (JSON_stringify V) = Some V"
  shows "(case expiryToJson (add (now s) (maxAgeOf options)) of
            Some e \<Rightarrow>
              (of_int t < e \<longrightarrow>
                 formValue (loadValue options None ((saveValue add options V s)\<lparr>now := t\<rparr>)) = V \<and>
                 storage (loadValue options None ((saveValue add options V s)\<lparr>now := t\<rparr>))
                   (storageKey options s)
                   = Some \<lparr>entryMaxAge = Some e, entryData = JSON_stringify V\<rparr>) \<and>
              (e \<le> of_int t \<longrightarrow>
                 formValue (loadValue options None ((saveValue add options V s)\<lparr>now := t\<rparr>))
                   = formValue s \<and>
                 storage (loadValue options None ((saveValue add options V s)\<lparr>now := t\<rparr>))
                   (storageKey options s) = None)
          | None \<Rightarrow>
              (0 \<le> t \<longrightarrow>
                 formValue (loadValue options None ((saveValue add options V s)\<lparr>now := t\<rparr>))
                   = formValue s \<and>
                 storage (loadValue options None ((saveValue add options V s)\<lparr>now := t\<rparr>))
                   (storageKey options s) = None))"
proof -
  obtain j where j: "JSON_stringify V = Some j" "JSON_parse j = V"
    using rep by (cases "JSON_stringify V") auto
  have tr: "truthy V" and ty: "typeof V = TObject" using obj by simp_all
  let ?x = "expiryToJson (add (now s) (maxAgeOf options))"
  let ?e = "\<lparr>entryMaxAge = ?x, entryData = JSON_stringify V\<rparr>"
  let ?s1 = "(saveValue add options V s)\<lparr>now := t\<rparr>"
  have s1: "?s1 = s\<lparr>storage := (storage s)(storageKey options s \<mapsto> ?e), now := t\<rparr>"
    by (simp add: saveValue_plain[OF nosave tr])
  have st: "storage ?s1 (storageKey options ?s1) = Some ?e"
    by (simp add: s1)
  have ld: "loadValue options None ?s1 =
           (if maxAgeAfter (entryMaxAge ?e) (now ?s1) then nodeInput options (JSON_parse j) ?s1
            else ?s1\<lparr>storage := (storage ?s1)(storageKey options ?s1 := None)\<rparr>)"
    by (rule loadValue_plain[OF noload st]) (simp_all add: j ty)
  show ?thesis
    unfolding ld unfolding s1
    by (cases ?x) (auto simp: j obj maxAgeAfter_def)
qed

text \<open>
  The value \<open>{ name: "Ada" }\<close> saved at time 1000 with the default maximal age of one hour,
  the sum being exact: loaded at 2000 it is restored, loaded at the expiry 3601000 it is not
  and the entry is gone.
\<close>

theorem save_then_load_round_trip_example:
  "beforeSaveOf None = None \<and> beforeLoadOf None = None \<and>
   map_option JSON_parse (JSON_stringify (JObj [(''name'', JStr ''Ada'')]))
     = Some (JObj [(''name'', JStr ''Ada'')]) \<and>
   expiryToJson (examplePlus (now exampleForm) (maxAgeOf None)) = Some 3601000 \<and>
   formValue (loadValue None None
      ((saveValue examplePlus None (JObj [(''name'', JStr ''Ada'')]) exampleForm)\<lparr>now := 2000\<rparr>))
     = JObj [(''name'', JStr ''Ada'')] \<and>
   formValue (loadValue None None
      ((saveValue examplePlus None (JObj [(''name'', JStr ''Ada'')]) exampleForm)\<lparr>now := 3601000\<rparr>))
     = JObj [] \<and>
   storage (loadValue None None
      ((saveValue examplePlus None (JObj [(''name'', JStr ''Ada'')]) exampleForm)\<lparr>now := 3601000\<rparr>))
     ''formkit-contact'' = None"
proof -
  let ?V = "JObj [(''name'', JStr ''Ada'')]"
  have h1: "beforeSaveOf None = None" by (simp add: beforeSaveOf_def)
  have h2: "beforeLoadOf None = None" by (simp add: beforeLoadOf_def)
  have h3: "?V = JObj [(''name'', JStr ''Ada'')]" by simp
  have h4: "map_option JSON_parse (JSON_stringify ?V) = Some ?V"
    by (simp add: List.map_filter_def)
  have x: "expiryToJson (examplePlus (now exampleForm) (maxAgeOf None)) = Some 3601000"
    by (simp add: exampleForm_def maxAgeOf_def examplePlus_def expiryToJson_def
          numberToJson_def)
  have m: "formValue exampleForm = JObj []"
          "storageKey None exampleForm = ''formkit-contact''"
    by (simp_all add: exampleForm_def storageKey_def)
  note t1 = save_then_load_round_trip[where add = examplePlus and s = exampleForm
      and t = 2000, OF h1 h2 h3 h4]
  note t2 = save_then_load_round_trip[where add = examplePlus and s = exampleForm
      and t = 3601000, OF h1 h2 h3 h4]
  show ?thesis using h1 h2 h4 x t1 t2 unfolding x m by simp
qed

text \<open>
  Claim C3 as stated fails, in the value and in the expiry. A form value with an undefined
  field, as an empty input leaves it, is not restored unchanged: saved and loaded at once,
  well before the expiry, \<open>{ name: undefined, city: "Paris" }\<close> comes back as
  \<open>{ city: "Paris" }\<close>. And with a
  maximal age of \<^verbatim>\<open>Infinity\<close> the entry never expires by the claim, but its expiry is
  stored as \<^verbatim>\<open>null\<close>: loaded at once, \<open>{ name: "Ada" }\<close> is not restored and the
  entry is removed.
\<close>

theorem undefined_field_is_not_restored:
  "formValue (loadValue None None
      (saveValue examplePlus None
         (JObj [(''name'', JUndefined), (''city'', JStr ''Paris'')]) exampleForm))
     = JObj [(''city'', JStr ''Paris'')] \<and>
   expiryToJson (examplePlus (now exampleForm) (maxAgeOf None)) = Some 3601000 \<and>
   beforeSaveOf None = None \<and> beforeLoadOf None = None \<and>
   maxAgeOf (Some exampleForeverOptions) = PosInfinity \<and>
   formValue (loadValue (Some exampleForeverOptions) None
      (saveValue examplePlus (Some exampleForeverOptions) (JObj [(''name'', JStr ''Ada'')])
         exampleForm)) = JObj [] \<and>
   storage (loadValue (Some exampleForeverOptions) None
      (saveValue examplePlus (Some exampleForeverOptions) (JObj [(''name'', JStr ''Ada'')])
         exampleForm)) ''formkit-contact'' = None"
  by (simp add: exampleForm_def exampleForeverOptions_def loadValue_def saveValue_def
        nodeInput_def commit_def beforeSaveOf_def beforeLoadOf_def maxAgeOf_def
        storageKey_def examplePlus_def expiryToJson_def numberToJson_def maxAgeAfter_def
        List.map_filter_def)

text \<open>
  Every value built from \<^verbatim>\<open>null\<close>, booleans, finite numbers other than negative zero,
  strings, arrays and plain objects is reproduced by JSON serialisation, so the round trip
  holds for every plain object made of them.
\<close>

lemma map_filter_all_some:
  "(\<And>x. x \<in> set xs \<Longrightarrow> f x = Some (g x)) \<Longrightarrow> List.map_filter f xs = map g xs"
  by (induction xs) (auto simp: List.map_filter_def)

lemma json_reproduces_plain_data:
  "plainData v \<Longrightarrow> \<exists>j. JSON_stringify v = Some j \<and> JSON_parse j = v"
proof (induction v)
  case (JNum n)
  then show ?case by (cases n) (simp_all add: numberToJson_def)
next
  case (JArr xs)
  have each: "\<exists>j. JSON_stringify x = Some j \<and> JSON_parse j = x" if "x \<in> set xs" for x
    using JArr that by (auto simp: list_all_iff)
  have "map (\<lambda>x. JSON_parse (case JSON_stringify x of None \<Rightarrow> JsonNull | Some j \<Rightarrow> j)) xs = xs"
  proof (rule map_idI)
    fix x assume "x \<in> set xs"
    from each[OF this]
    show "JSON_parse (case JSON_stringify x of None \<Rightarrow> JsonNull | Some j \<Rightarrow> j) = x"
      by auto
  qed
  then show ?case by (simp add: comp_def)
next
  case (JObj fs)
  have each: "\<exists>j. JSON_stringify (snd kv) = Some j \<and> JSON_parse j = snd kv"
    if "kv \<in> set fs" for kv
  proof -
    have "snd kv \<in> Basic_BNFs.snds kv" by (cases kv) simp
    moreover have "plainData (snd kv)"
      using JObj.prems that by (auto simp: list_all_iff)
    ultimately show ?thesis using JObj.IH[OF that] by blast
  qed
  have mf: "List.map_filter (\<lambda>kr. map_option (Pair (fst kr)) (snd kr))
              (map (map_prod id JSON_stringify) fs)
            = map (\<lambda>kr. (fst kr, the (snd kr))) (map (map_prod id JSON_stringify) fs)"
  proof (rule map_filter_all_some)
    fix x assume "x \<in> set (map (map_prod id JSON_stringify) fs)"
    then obtain kv where kv: "kv \<in> set fs" "x = map_prod id JSON_stringify kv" by auto
    from each[OF kv(1)] obtain j where "JSON_stringify (snd kv) = Some j" by blast
    then show "map_option (Pair (fst x)) (snd x) = Some (fst x, the (snd x))"
      using kv(2) by (cases kv) simp
  qed
  have "map (\<lambda>kv. map_prod id JSON_parse
                (fst (map_prod id JSON_stringify kv), the (snd (map_prod id JSON_stringify kv)))) fs
          = fs"
  proof (rule map_idI)
    fix kv assume "kv \<in> set fs"
    from each[OF this]
    show "map_prod id JSON_parse
            (fst (map_prod id JSON_stringify kv), the (snd (map_prod id JSON_stringify kv))) = kv"
      by (cases kv) auto
  qed
  then show ?case by (simp add: mf comp_def)
qed simp_all

section \<open>The control field of the local-storage plugin\<close>

text \<open>
  Claim C9 is not what the code does. The variable \<^verbatim>\<open>controlNode\<close> that the
  \<^verbatim>\<open>created\<close> handler passes to \<^verbatim>\<open>shouldUseLocalStorage\<close> is never assigned, so until
  the control field itself commits its value is not read: whenever the prop is on, a form
  with a control field whose value is not \<open>true\<close> starts with persistence enabled, a
  commit of the form schedules the save, and the timer writes the entry.
\<close>

theorem control_field_not_read_at_start:
  assumes enabled: "undefine (propUseLocalStorage s)"
      and ctl: "controlOf options = Some address"
      and cv: "nodeAt s address = Some v"
      and nosave: "beforeSaveOf options = None"
      and tr: "truthy payload"
      and due: "now s + debounceOf options \<le> t"
  shows "useLocalStorage (created undefine options s) \<and>
         storage (timerFires add options
                    ((commit options payload (created undefine options s))\<lparr>now := t\<rparr>))
           (storageKey options s)
           = Some \<lparr>entryMaxAge = expiryToJson (add t (maxAgeOf options)),
                   entryData = JSON_stringify payload\<rparr>"
proof -
  let ?s1 = "created undefine options s"
  have u: "useLocalStorage ?s1"
    using enabled by (simp add: created_def shouldUseLocalStorage_def)
  have n: "now ?s1 = now s" by (simp add: created_def)
  have k: "storageKey options ?s1 = storageKey options s" by (simp add: created_def)
  let ?s2 = "(commit options payload ?s1)\<lparr>now := t\<rparr>"
  have s2: "?s2 = ?s1\<lparr>saveTimeout := Some (now s + debounceOf options, payload), now := t\<rparr>"
    using u n by (simp add: commit_def)
  show ?thesis
    unfolding s2 using u due
    by (simp add: timerFires_def saveValue_plain[OF nosave tr] k)
qed

text \<open>
  The form with the control field \<open>remember\<close> at \<open>false\<close> and the prop on: after
  \<^verbatim>\<open>created\<close>, a commit of \<open>{ name: "Ada" }\<close> at time 1000 and the timer at 1200, the
  entry is in the store.
\<close>

theorem control_field_not_read_at_start_example:
  "truthy (propUseLocalStorage exampleControlledForm) \<and>
   controlOf (Some exampleControlOptions) = Some ''remember'' \<and>
   nodeAt exampleControlledForm ''remember'' = Some (JBool False) \<and>
   beforeSaveOf (Some exampleControlOptions) = None \<and>
   truthy (JObj [(''name'', JStr ''Ada'')]) \<and>
   now exampleControlledForm + debounceOf (Some exampleControlOptions) \<le> 1200 \<and>
   useLocalStorage (created truthy (Some exampleControlOptions) exampleControlledForm) \<and>
   storage (timerFires examplePlus (Some exampleControlOptions)
              ((commit (Some exampleControlOptions) (JObj [(''name'', JStr ''Ada'')])
                  (created truthy (Some exampleControlOptions) exampleControlledForm))
               \<lparr>now := 1200\<rparr>))
     ''formkit-contact''
     = Some \<lparr>entryMaxAge = Some 3601200,
             entryData = Some (JsonObj [(''name'', JsonStr ''Ada'')])\<rparr>"
proof -
  let ?o = "Some exampleControlOptions"
  let ?V = "JObj [(''name'', JStr ''Ada'')]"
  have h1: "truthy (propUseLocalStorage exampleControlledForm)"
    by (simp add: exampleControlledForm_def exampleForm_def)
  have h2: "controlOf ?o = Some ''remember''"
    by (simp add: controlOf_def exampleControlOptions_def)
  have h3: "nodeAt exampleControlledForm ''remember'' = Some (JBool False)"
    by (simp add: exampleControlledForm_def)
  have h4: "beforeSaveOf ?o = None"
    by (simp add: beforeSaveOf_def exampleControlOptions_def)
  have h5: "truthy ?V" by simp
  have h6: "now exampleControlledForm + debounceOf ?o \<le> 1200"
    by (simp add: exampleControlledForm_def exampleForm_def debounceOf_def
          exampleControlOptions_def)
  have m: "storageKey ?o exampleControlledForm = ''formkit-contact''"
          "expiryToJson (examplePlus 1200 (maxAgeOf ?o)) = Some 3601200"
          "JSON_stringify ?V = Some (JsonObj [(''name'', JsonStr ''Ada'')])"
    by (simp_all add: storageKey_def exampleControlledForm_def exampleForm_def
          exampleControlOptions_def maxAgeOf_def List.map_filter_def examplePlus_def
          expiryToJson_def numberToJson_def)
  note t = control_field_not_read_at_start[where undefine = truthy
      and s = exampleControlledForm and add = examplePlus, OF h1 h2 h3 h4 h5 h6]
  show ?thesis using h1 h2 h3 h4 h5 h6 t unfolding m by simp
qed

end
